theory Spec2Isabelle
  imports Complex_Main "HOL-Library.Monad_Syntax"
begin

section \<open>Numbers\<close>

text \<open>
  Every scalar of the library is a JavaScript \<^verbatim>\<open>number\<close>. The model keeps the special
  values of IEEE-754 arithmetic (the two infinities and NaN), because the library divides
  without guarding the divisor, and computes on the finite values with exact real
  arithmetic: rounding and overflow of finite results are not modelled. The two zeros are
  identified; a finite nonzero value divided by zero takes its own sign, which is the
  result for the positive zero (sums of squares and square roots, the divisors that can
  vanish inside the library, are never the negative zero).
\<close>

datatype number = Fin real | PInf | NInf | NaN

instantiation number :: "{plus, uminus, minus, times, inverse, ord}"
begin

fun plus_number :: "number \<Rightarrow> number \<Rightarrow> number" where
  "plus_number NaN b = NaN"
| "plus_number a NaN = NaN"
| "plus_number (Fin a) (Fin b) = Fin (a + b)"
| "plus_number PInf NInf = NaN"
| "plus_number NInf PInf = NaN"
| "plus_number PInf b = PInf"
| "plus_number a PInf = PInf"
| "plus_number NInf b = NInf"
| "plus_number a NInf = NInf"

fun uminus_number :: "number \<Rightarrow> number" where
  "uminus_number (Fin a) = Fin (- a)"
| "uminus_number PInf = NInf"
| "uminus_number NInf = PInf"
| "uminus_number NaN = NaN"

definition minus_number :: "number \<Rightarrow> number \<Rightarrow> number" where
  "minus_number a b = a + (- b)"

fun times_number :: "number \<Rightarrow> number \<Rightarrow> number" where
  "times_number NaN b = NaN"
| "times_number a NaN = NaN"
| "times_number (Fin a) (Fin b) = Fin (a * b)"
| "times_number PInf (Fin b) = (if b = 0 then NaN else if 0 < b then PInf else NInf)"
| "times_number NInf (Fin b) = (if b = 0 then NaN else if 0 < b then NInf else PInf)"
| "times_number (Fin a) PInf = (if a = 0 then NaN else if 0 < a then PInf else NInf)"
| "times_number (Fin a) NInf = (if a = 0 then NaN else if 0 < a then NInf else PInf)"
| "times_number PInf PInf = PInf"
| "times_number PInf NInf = NInf"
| "times_number NInf PInf = NInf"
| "times_number NInf NInf = PInf"

fun divide_number :: "number \<Rightarrow> number \<Rightarrow> number" where
  "divide_number NaN b = NaN"
| "divide_number a NaN = NaN"
| "divide_number (Fin a) (Fin b) =
     (if b = 0 then (if a = 0 then NaN else if 0 < a then PInf else NInf)
      else Fin (a / b))"
| "divide_number (Fin a) PInf = Fin 0"
| "divide_number (Fin a) NInf = Fin 0"
| "divide_number PInf (Fin b) = (if 0 \<le> b then PInf else NInf)"
| "divide_number NInf (Fin b) = (if 0 \<le> b then NInf else PInf)"
| "divide_number PInf PInf = NaN"
| "divide_number PInf NInf = NaN"
| "divide_number NInf PInf = NaN"
| "divide_number NInf NInf = NaN"

definition inverse_number :: "number \<Rightarrow> number" where
  "inverse_number a = divide (Fin 1) a"

text \<open>Every comparison with NaN is false.\<close>

fun less_number :: "number \<Rightarrow> number \<Rightarrow> bool" where
  "less_number (Fin a) (Fin b) = (a < b)"
| "less_number NInf (Fin b) = True"
| "less_number NInf PInf = True"
| "less_number (Fin a) PInf = True"
| "less_number a b = False"

fun less_eq_number :: "number \<Rightarrow> number \<Rightarrow> bool" where
  "less_eq_number (Fin a) (Fin b) = (a \<le> b)"
| "less_eq_number NaN b = False"
| "less_eq_number a NaN = False"
| "less_eq_number NInf b = True"
| "less_eq_number a PInf = True"
| "less_eq_number a b = False"

instance ..

end

fun Math_sqrt :: "number \<Rightarrow> number" where
  "Math_sqrt (Fin a) = (if a < 0 then NaN else Fin (sqrt a))"
| "Math_sqrt PInf = PInf"
| "Math_sqrt NInf = NaN"
| "Math_sqrt NaN = NaN"

fun Math_abs :: "number \<Rightarrow> number" where
  "Math_abs (Fin a) = Fin \<bar>a\<bar>"
| "Math_abs PInf = PInf"
| "Math_abs NInf = PInf"
| "Math_abs NaN = NaN"

fun Math_max :: "number \<Rightarrow> number \<Rightarrow> number" where
  "Math_max NaN b = NaN"
| "Math_max a NaN = NaN"
| "Math_max a b = (if a < b then b else a)"

fun Math_min :: "number \<Rightarrow> number \<Rightarrow> number" where
  "Math_min NaN b = NaN"
| "Math_min a NaN = NaN"
| "Math_min a b = (if b < a then b else a)"

section \<open>Vector2\<close>

text \<open>The fields \<^verbatim>\<open>_x\<close> and \<^verbatim>\<open>_y\<close> of the class, read through \<^verbatim>\<open>x()\<close> and \<^verbatim>\<open>y()\<close>.\<close>

datatype Vector2 = Vector2 (x_v: number) (y_v: number)

definition Vector2_dot :: "Vector2 \<Rightarrow> Vector2 \<Rightarrow> number" where
  "Vector2_dot vector1 vector2 = x_v vector1 * x_v vector2 + y_v vector1 * y_v vector2"

definition Vector2_multiply :: "Vector2 \<Rightarrow> number \<Rightarrow> Vector2" where
  "Vector2_multiply v scalar = Vector2 (x_v v * scalar) (y_v v * scalar)"

definition Vector2_divide :: "Vector2 \<Rightarrow> number \<Rightarrow> Vector2" where
  "Vector2_divide v scalar = Vector2 (x_v v / scalar) (y_v v / scalar)"

definition Vector2_add :: "Vector2 \<Rightarrow> Vector2 \<Rightarrow> Vector2" where
  "Vector2_add vector1 vector2 =
     Vector2 (x_v vector1 + x_v vector2) (y_v vector1 + y_v vector2)"

definition Vector2_subtract :: "Vector2 \<Rightarrow> Vector2 \<Rightarrow> Vector2" where
  "Vector2_subtract vector1 vector2 =
     Vector2 (x_v vector1 - x_v vector2) (y_v vector1 - y_v vector2)"

definition Vector2_negate :: "Vector2 \<Rightarrow> Vector2" where
  "Vector2_negate v = Vector2 (- x_v v) (- y_v v)"

definition Vector2_length :: "Vector2 \<Rightarrow> number" where
  "Vector2_length v = Math_sqrt (x_v v * x_v v + y_v v * y_v v)"

definition Vector2_lengthSq :: "Vector2 \<Rightarrow> number" where
  "Vector2_lengthSq v = x_v v * x_v v + y_v v * y_v v"

text \<open>The instance method \<^verbatim>\<open>normalize()\<close>; the static \<^verbatim>\<open>Vector2.normalize(vector)\<close> calls it.\<close>

definition Vector2_normalize :: "Vector2 \<Rightarrow> Vector2" where
  "Vector2_normalize v =
     (let len = Vector2_length v in
      if Fin 0 < len then Vector2_divide v len else Vector2 (Fin 0) (Fin 0))"

definition Vector2_normalize_static :: "Vector2 \<Rightarrow> Vector2" where
  "Vector2_normalize_static vector = Vector2_normalize vector"

section \<open>RVOMath\<close>

definition RVO_EPSILON :: number where
  "RVO_EPSILON = Fin 0.00001"

definition RVOMath_sqr :: "number \<Rightarrow> number" where
  "RVOMath_sqr scalar = scalar * scalar"

definition RVOMath_sqrt :: "number \<Rightarrow> number" where
  "RVOMath_sqrt scalar = Math_sqrt scalar"

definition RVOMath_fabs :: "number \<Rightarrow> number" where
  "RVOMath_fabs scalar = Math_abs scalar"

definition RVOMath_absSq :: "Vector2 \<Rightarrow> number" where
  "RVOMath_absSq v = Vector2_dot v v"

definition RVOMath_abs :: "Vector2 \<Rightarrow> number" where
  "RVOMath_abs v = RVOMath_sqrt (RVOMath_absSq v)"

definition RVOMath_normalize :: "Vector2 \<Rightarrow> Vector2" where
  "RVOMath_normalize v = Vector2_divide v (RVOMath_abs v)"

definition RVOMath_det :: "Vector2 \<Rightarrow> Vector2 \<Rightarrow> number" where
  "RVOMath_det vector1 vector2 = x_v vector1 * y_v vector2 - y_v vector1 * x_v vector2"

definition RVOMath_leftOf :: "Vector2 \<Rightarrow> Vector2 \<Rightarrow> Vector2 \<Rightarrow> number" where
  "RVOMath_leftOf a b c = RVOMath_det (Vector2_subtract a c) (Vector2_subtract b a)"

definition RVOMath_distSqPointLineSegment :: "Vector2 \<Rightarrow> Vector2 \<Rightarrow> Vector2 \<Rightarrow> number" where
  "RVOMath_distSqPointLineSegment vector1 vector2 vector3 =
     (let r = Vector2_dot (Vector2_subtract vector3 vector1) (Vector2_subtract vector2 vector1)
                / RVOMath_absSq (Vector2_subtract vector2 vector1)
      in if r < Fin 0 then RVOMath_absSq (Vector2_subtract vector3 vector1)
         else if Fin 1 < r then RVOMath_absSq (Vector2_subtract vector3 vector2)
         else RVOMath_absSq (Vector2_subtract vector3
                (Vector2_add vector1 (Vector2_multiply (Vector2_subtract vector2 vector1) r))))"

section \<open>Lines, obstacles, agents\<close>

record Line =
  point :: Vector2
  direction :: Vector2

text \<open>
  Obstacle vertices are objects linked by \<^verbatim>\<open>next\<close> and \<^verbatim>\<open>previous\<close>. Every vertex
  object is created by the simulator and appended to its \<^verbatim>\<open>obstacles\<close> array at once, so
  a reference to a vertex is modelled by the index of the vertex in that array, and
  \<^verbatim>\<open>null\<close> by \<open>None\<close>.
\<close>

record Obstacle =
  next_o :: "nat option"
  previous_o :: "nat option"
  direction_o :: Vector2
  point_o :: Vector2
  id_o :: nat
  convex_o :: bool

text \<open>
  Modelled from the spec: the constructor of \<^verbatim>\<open>Obstacle\<close> (Obstacle.js is not among the
  sources, only its declaration): the links start as \<^verbatim>\<open>null\<close>. Every other field is
  assigned by the code that creates a vertex before the vertex is read.
\<close>

definition new_Obstacle :: Obstacle where
  "new_Obstacle =
     \<lparr> next_o = None, previous_o = None, direction_o = Vector2 (Fin 0) (Fin 0),
       point_o = Vector2 (Fin 0) (Fin 0), id_o = 0, convex_o = False \<rparr>"

text \<open>
  A neighbour entry \<^verbatim>\<open>{ key, value }\<close> is a pair. An agent object is referred to by its
  index in the simulator's \<^verbatim>\<open>agents\<close> array, where it is appended when it is created.
  \<^verbatim>\<open>maxNeighbors\<close> and the identifiers are counts.
\<close>

record Agent =
  agentNeighbors :: "(number \<times> nat) list"
  obstacleNeighbors :: "(number \<times> nat) list"
  orcaLines :: "Line list"
  position :: Vector2
  prefVelocity :: Vector2
  velocity :: Vector2
  id_a :: nat
  maxNeighbors :: int
  maxSpeed :: number
  neighborDist :: number
  radius :: number
  timeHorizon :: number
  timeHorizonObst :: number
  newVelocity :: Vector2

definition new_Agent :: Agent where
  "new_Agent =
     \<lparr> agentNeighbors = [], obstacleNeighbors = [], orcaLines = [],
       position = Vector2 (Fin 0) (Fin 0), prefVelocity = Vector2 (Fin 0) (Fin 0),
       velocity = Vector2 (Fin 0) (Fin 0), id_a = 0, maxNeighbors = 0,
       maxSpeed = Fin 0, neighborDist = Fin 0, radius = Fin 0, timeHorizon = Fin 0,
       timeHorizonObst = Fin 0, newVelocity = Vector2 (Fin 0) (Fin 0) \<rparr>"

section \<open>The k-D trees and the simulator state\<close>

record AgentTreeNode =
  begin_n :: nat
  end_n :: nat
  left_n :: nat
  right_n :: nat
  maxX :: number
  maxY :: number
  minX :: number
  minY :: number

definition new_AgentTreeNode :: AgentTreeNode where
  "new_AgentTreeNode =
     \<lparr> begin_n = 0, end_n = 0, left_n = 0, right_n = 0,
       maxX = Fin 0, maxY = Fin 0, minX = Fin 0, minY = Fin 0 \<rparr>"

text \<open>An \<^verbatim>\<open>ObstacleTreeNode | null\<close>; the node holds a reference to its obstacle vertex.\<close>

datatype ObstacleTreeNode =
  Null
  | ObstacleTreeNode (obstacle_t: nat) (left_t: ObstacleTreeNode) (right_t: ObstacleTreeNode)

record KdTree =
  agents_kd :: "nat list"
  agentTree :: "AgentTreeNode list"
  obstacleTree :: ObstacleTreeNode

definition new_KdTree :: KdTree where
  "new_KdTree = \<lparr> agents_kd = [], agentTree = [], obstacleTree = Null \<rparr>"

definition MAX_LEAF_SIZE :: nat where
  "MAX_LEAF_SIZE = 10"

record Simulator =
  agents :: "Agent list"
  obstacles :: "Obstacle list"
  kdTree :: KdTree
  timeStep :: number
  defaultAgent :: "Agent option"
  globalTime :: number

section \<open>Simulator: adding agents and obstacles, clearing\<close>

definition addAgent :: "Simulator \<Rightarrow> Vector2 \<Rightarrow> int \<times> Simulator" where
  "addAgent sim pos =
     (case defaultAgent sim of
        None \<Rightarrow> (- 1, sim)
      | Some d \<Rightarrow>
          (let agent = new_Agent
                 \<lparr> id_a := length (agents sim),
                   maxNeighbors := maxNeighbors d,
                   maxSpeed := maxSpeed d,
                   neighborDist := neighborDist d,
                   position := pos,
                   radius := radius d,
                   timeHorizon := timeHorizon d,
                   timeHorizonObst := timeHorizonObst d,
                   velocity := velocity d \<rparr>
           in (int (id_a agent), sim \<lparr> agents := agents sim @ [agent] \<rparr>)))"

definition addAgentWithParams ::
  "Simulator \<Rightarrow> Vector2 \<Rightarrow> number \<Rightarrow> int \<Rightarrow> number \<Rightarrow> number \<Rightarrow> number \<Rightarrow> number \<Rightarrow> Vector2
     \<Rightarrow> int \<times> Simulator" where
  "addAgentWithParams sim pos neighborDist' maxNeighbors' timeHorizon' timeHorizonObst'
       radius' maxSpeed' velocity' =
     (let agent = new_Agent
            \<lparr> id_a := length (agents sim),
              maxNeighbors := maxNeighbors',
              maxSpeed := maxSpeed',
              neighborDist := neighborDist',
              position := pos,
              radius := radius',
              timeHorizon := timeHorizon',
              timeHorizonObst := timeHorizonObst',
              velocity := velocity' \<rparr>
      in (int (id_a agent), sim \<lparr> agents := agents sim @ [agent] \<rparr>))"

definition setAgentDefaults ::
  "Simulator \<Rightarrow> number \<Rightarrow> int \<Rightarrow> number \<Rightarrow> number \<Rightarrow> number \<Rightarrow> number \<Rightarrow> Vector2 \<Rightarrow> Simulator" where
  "setAgentDefaults sim neighborDist' maxNeighbors' timeHorizon' timeHorizonObst'
       radius' maxSpeed' velocity' =
     (let d = (case defaultAgent sim of None \<Rightarrow> new_Agent | Some d \<Rightarrow> d) in
      sim \<lparr> defaultAgent := Some (d
            \<lparr> maxNeighbors := maxNeighbors',
              maxSpeed := maxSpeed',
              neighborDist := neighborDist',
              radius := radius',
              timeHorizon := timeHorizon',
              timeHorizonObst := timeHorizonObst',
              velocity := velocity' \<rparr>) \<rparr>)"

text \<open>
  One round of the loop of \<^verbatim>\<open>addObstacle\<close>. The vertex created in round \<open>i\<close> is pushed
  at the end of the round, so its reference is the length of the array at the start.
\<close>

definition addObstacle_step :: "Vector2 list \<Rightarrow> nat \<Rightarrow> nat \<Rightarrow> Obstacle list \<Rightarrow> Obstacle list" where
  "addObstacle_step vertices obstacleNo i obs =
     (let n = length vertices;
          self = length obs;
          obstacle = new_Obstacle \<lparr> point_o := vertices ! i \<rparr>;
          (obstacle, obs) =
             (if i \<noteq> 0
              then (obstacle \<lparr> previous_o := Some (length obs - 1) \<rparr>,
                    obs [length obs - 1 := (obs ! (length obs - 1)) \<lparr> next_o := Some self \<rparr>])
              else (obstacle, obs));
          (obstacle, obs) =
             (if i = n - 1
              then (obstacle \<lparr> next_o := Some obstacleNo \<rparr>,
                    obs [obstacleNo := (obs ! obstacleNo) \<lparr> previous_o := Some self \<rparr>])
              else (obstacle, obs));
          obstacle = obstacle \<lparr> direction_o :=
             RVOMath_normalize (Vector2_subtract (vertices ! (if i = n - 1 then 0 else i + 1))
                                                 (vertices ! i)) \<rparr>;
          obstacle = obstacle \<lparr> convex_o :=
             (if n = 2 then True
              else Fin 0 \<le> RVOMath_leftOf (vertices ! (if i = 0 then n - 1 else i - 1))
                                         (vertices ! i)
                                         (vertices ! (if i = n - 1 then 0 else i + 1))) \<rparr>;
          obstacle = obstacle \<lparr> id_o := length obs \<rparr>
      in obs @ [obstacle])"

definition addObstacle :: "Simulator \<Rightarrow> Vector2 list \<Rightarrow> int \<times> Simulator" where
  "addObstacle sim vertices =
     (if length vertices < 2 then (- 1, sim)
      else
        (let obstacleNo = length (obstacles sim) in
         (int obstacleNo,
          sim \<lparr> obstacles :=
                  fold (addObstacle_step vertices obstacleNo) [0 ..< length vertices]
                       (obstacles sim) \<rparr>)))"

definition clear :: "Simulator \<Rightarrow> Simulator" where
  "clear sim =
     sim \<lparr> agents := [], defaultAgent := None, kdTree := new_KdTree, obstacles := [],
           globalTime := Fin 0, timeStep := Fin 0.1 \<rparr>"

text \<open>The constructor calls \<^verbatim>\<open>clear()\<close> on the field initialisers.\<close>

definition new_Simulator :: Simulator where
  "new_Simulator =
     clear \<lparr> agents = [], obstacles = [], kdTree = new_KdTree, timeStep = Fin 0.1,
             defaultAgent = None, globalTime = Fin 0 \<rparr>"


definition getTimeStep :: "Simulator \<Rightarrow> number" where
  "getTimeStep sim = timeStep sim"

definition getNumAgents :: "Simulator \<Rightarrow> nat" where
  "getNumAgents sim = length (agents sim)"

definition getNumObstacleVertices :: "Simulator \<Rightarrow> nat" where
  "getNumObstacleVertices sim = length (obstacles sim)"

definition setTimeStep :: "Simulator \<Rightarrow> number \<Rightarrow> Simulator" where
  "setTimeStep sim timeStep' = sim \<lparr> timeStep := timeStep' \<rparr>"

definition setGlobalTime :: "Simulator \<Rightarrow> number \<Rightarrow> Simulator" where
  "setGlobalTime sim globalTime' = sim \<lparr> globalTime := globalTime' \<rparr>"

definition addObstacleVertex :: "Simulator \<Rightarrow> Obstacle \<Rightarrow> Simulator" where
  "addObstacleVertex sim obstacle = sim \<lparr> obstacles := obstacles sim @ [obstacle] \<rparr>"

text \<open>
  \<^verbatim>\<open>setAgentPrefVelocity\<close> assigns to a property of \<^verbatim>\<open>this.agents[agentNo]\<close>: a TypeError
  (\<open>None\<close>) where there is no such agent.
\<close>

definition setAgentPrefVelocity :: "Simulator \<Rightarrow> nat \<Rightarrow> Vector2 \<Rightarrow> Simulator option" where
  "setAgentPrefVelocity sim agentNo prefVelocity' =
     (if agentNo < length (agents sim)
      then Some (sim \<lparr> agents := (agents sim)
                   [agentNo := (agents sim ! agentNo) \<lparr> prefVelocity := prefVelocity' \<rparr>] \<rparr>)
      else None)"

section \<open>Agent: neighbour lists\<close>

text \<open>
  Reading the object behind a reference. A state of the program never holds a reference
  to a missing object; the model answers \<open>None\<close> there, as it does when the program
  reads a property of \<^verbatim>\<open>null\<close> or \<^verbatim>\<open>undefined\<close> and throws a TypeError.
\<close>

definition deref :: "'a list \<Rightarrow> nat \<Rightarrow> 'a option" where
  "deref xs i = (if i < length xs then Some (xs ! i) else None)"

text \<open>
  The \<^verbatim>\<open>while\<close> loop of the two insert methods: entries with a larger key move one
  place up, and the loop returns the place that is left free.
\<close>

fun shift_up :: "(number \<times> nat) list \<Rightarrow> number \<Rightarrow> nat \<Rightarrow> (number \<times> nat) list \<times> nat" where
  "shift_up xs distSq 0 = (xs, 0)"
| "shift_up xs distSq (Suc j) =
     (if distSq < fst (xs ! j) then shift_up (xs [Suc j := xs ! j]) distSq j
      else (xs, Suc j))"

text \<open>
  \<^verbatim>\<open>insertAgentNeighbor(agent, rangeSq)\<close> on the agent \<open>this\<close>, whose reference is
  \<open>self\<close>; \<open>store\<close> is the simulator's agent array, read for the position of the
  other agent. The cell \<^verbatim>\<open>rangeSq.value\<close> is passed in and returned. With an empty
  list and nothing pushed, the loop would read \<^verbatim>\<open>agentNeighbors[-2].key\<close>: a TypeError.
\<close>

definition insertAgentNeighbor ::
  "Agent list \<Rightarrow> nat \<Rightarrow> Agent \<Rightarrow> nat \<Rightarrow> number \<Rightarrow> (Agent \<times> number) option" where
  "insertAgentNeighbor store self this agent rangeSq =
     (if self \<noteq> agent then
        (case deref store agent of
           None \<Rightarrow> None
         | Some other \<Rightarrow>
            (let distSq = RVOMath_absSq (Vector2_subtract (position this) (position other)) in
             if distSq < rangeSq then
               (let xs = (if int (length (agentNeighbors this)) < maxNeighbors this
                          then agentNeighbors this @ [(distSq, agent)]
                          else agentNeighbors this)
                in if xs = [] then None
                   else
                     (let (xs, i) = shift_up xs distSq (length xs - 1);
                          xs = xs [i := (distSq, agent)];
                          rangeSq = (if int (length xs) = maxNeighbors this
                                     then fst (xs ! (length xs - 1)) else rangeSq)
                      in Some (this \<lparr> agentNeighbors := xs \<rparr>, rangeSq)))
             else Some (this, rangeSq)))
      else Some (this, rangeSq))"

text \<open>\<^verbatim>\<open>insertObstacleNeighbor(obstacle, rangeSq)\<close>; \<open>obs\<close> is the simulator's vertex array.\<close>

definition insertObstacleNeighbor ::
  "Obstacle list \<Rightarrow> Agent \<Rightarrow> nat \<Rightarrow> number \<Rightarrow> Agent option" where
  "insertObstacleNeighbor obs this obstacle rangeSq =
     (case deref obs obstacle of
        None \<Rightarrow> None
      | Some obstacle1 \<Rightarrow>
         (case next_o obstacle1 of
            None \<Rightarrow> None
          | Some n \<Rightarrow>
             (case deref obs n of
                None \<Rightarrow> None
              | Some nextObstacle \<Rightarrow>
                 (let distSq = RVOMath_distSqPointLineSegment (point_o obstacle1)
                                 (point_o nextObstacle) (position this) in
                  if distSq < rangeSq then
                    (let xs = obstacleNeighbors this @ [(distSq, obstacle)];
                         (xs, i) = shift_up xs distSq (length xs - 1);
                         xs = xs [i := (distSq, obstacle)]
                     in Some (this \<lparr> obstacleNeighbors := xs \<rparr>))
                  else Some this))))"

section \<open>KdTree: queries\<close>

fun queryObstacleTreeRecursive ::
  "Obstacle list \<Rightarrow> Agent \<Rightarrow> number \<Rightarrow> ObstacleTreeNode \<Rightarrow> Agent option" where
  "queryObstacleTreeRecursive obs agent rangeSq Null = Some agent"
| "queryObstacleTreeRecursive obs agent rangeSq (ObstacleTreeNode obstacle l r) =
     (case deref obs obstacle of
        None \<Rightarrow> None
      | Some obstacle1 \<Rightarrow>
         (case next_o obstacle1 of
            None \<Rightarrow> None
          | Some n \<Rightarrow>
             (case deref obs n of
                None \<Rightarrow> None
              | Some obstacle2 \<Rightarrow>
                 (let agentLeftOfLine =
                        RVOMath_leftOf (point_o obstacle1) (point_o obstacle2) (position agent)
                  in case (if agentLeftOfLine \<ge> Fin 0
                           then queryObstacleTreeRecursive obs agent rangeSq l
                           else queryObstacleTreeRecursive obs agent rangeSq r) of
                       None \<Rightarrow> None
                     | Some agent \<Rightarrow>
                        (let distSqLine = RVOMath_sqr agentLeftOfLine
                               / RVOMath_absSq (Vector2_subtract (point_o obstacle2)
                                                                 (point_o obstacle1))
                         in if distSqLine < rangeSq then
                              (case (if agentLeftOfLine < Fin 0
                                     then insertObstacleNeighbor obs agent obstacle rangeSq
                                     else Some agent) of
                                 None \<Rightarrow> None
                               | Some agent \<Rightarrow>
                                  (if agentLeftOfLine \<ge> Fin 0
                                   then queryObstacleTreeRecursive obs agent rangeSq r
                                   else queryObstacleTreeRecursive obs agent rangeSq l))
                            else Some agent)))))"

definition computeObstacleNeighbors :: "Simulator \<Rightarrow> Agent \<Rightarrow> number \<Rightarrow> Agent option" where
  "computeObstacleNeighbors sim agent rangeSq =
     queryObstacleTreeRecursive (obstacles sim) agent rangeSq (obstacleTree (kdTree sim))"

text \<open>The loop over a leaf of the agent tree: the places \<open>is\<close> of \<^verbatim>\<open>this.agents\<close> in turn.\<close>

fun queryAgentTree_leaf ::
  "Agent list \<Rightarrow> nat list \<Rightarrow> nat \<Rightarrow> nat list \<Rightarrow> Agent \<times> number \<Rightarrow> (Agent \<times> number) option" where
  "queryAgentTree_leaf store kd_agents self [] st = Some st"
| "queryAgentTree_leaf store kd_agents self (i # is) (agent, rangeSq) =
     (case deref kd_agents i of
        None \<Rightarrow> None
      | Some other \<Rightarrow>
         (case insertAgentNeighbor store self agent other rangeSq of
            None \<Rightarrow> None
          | Some st \<Rightarrow> queryAgentTree_leaf store kd_agents self is st))"

text \<open>The squared distance from a position to the bounding box of a node.\<close>

definition distSq_box :: "AgentTreeNode \<Rightarrow> Vector2 \<Rightarrow> number" where
  "distSq_box nd p =
     RVOMath_sqr (Math_max (Fin 0) (minX nd - x_v p))
     + RVOMath_sqr (Math_max (Fin 0) (x_v p - maxX nd))
     + RVOMath_sqr (Math_max (Fin 0) (minY nd - y_v p))
     + RVOMath_sqr (Math_max (Fin 0) (y_v p - maxY nd))"

text \<open>
  \<^verbatim>\<open>queryAgentTreeRecursive(agent, rangeSq, node)\<close>. The recursion follows the child
  places stored in the nodes, so the model is a partial function: \<open>None\<close> stands for a
  TypeError or for a query that does not return.
\<close>

partial_function (option) queryAgentTreeRecursive ::
  "Agent list \<Rightarrow> KdTree \<Rightarrow> nat \<Rightarrow> Agent \<Rightarrow> number \<Rightarrow> nat \<Rightarrow> (Agent \<times> number) option" where
  "queryAgentTreeRecursive store kd self agent rangeSq node =
     (case deref (agentTree kd) node of
        None \<Rightarrow> None
      | Some nd \<Rightarrow>
         (if end_n nd - begin_n nd \<le> MAX_LEAF_SIZE then
            queryAgentTree_leaf store (agents_kd kd) self [begin_n nd ..< end_n nd]
              (agent, rangeSq)
          else
            (case deref (agentTree kd) (left_n nd) of
               None \<Rightarrow> None
             | Some l \<Rightarrow>
                (case deref (agentTree kd) (right_n nd) of
                   None \<Rightarrow> None
                 | Some r \<Rightarrow>
                    (let distSqLeft = distSq_box l (position agent);
                         distSqRight = distSq_box r (position agent)
                     in if distSqLeft < distSqRight then
                          (if distSqLeft < rangeSq then
                             do {
                               (agent, rangeSq) \<leftarrow>
                                 queryAgentTreeRecursive store kd self agent rangeSq (left_n nd);
                               if distSqRight < rangeSq
                               then queryAgentTreeRecursive store kd self agent rangeSq
                                      (right_n nd)
                               else Some (agent, rangeSq)
                             }
                           else Some (agent, rangeSq))
                        else
                          (if distSqRight < rangeSq then
                             do {
                               (agent, rangeSq) \<leftarrow>
                                 queryAgentTreeRecursive store kd self agent rangeSq (right_n nd);
                               if distSqLeft < rangeSq
                               then queryAgentTreeRecursive store kd self agent rangeSq
                                      (left_n nd)
                               else Some (agent, rangeSq)
                             }
                           else Some (agent, rangeSq)))))))"

definition computeAgentNeighbors ::
  "Simulator \<Rightarrow> nat \<Rightarrow> Agent \<Rightarrow> number \<Rightarrow> (Agent \<times> number) option" where
  "computeAgentNeighbors sim self agent rangeSq =
     queryAgentTreeRecursive (agents sim) (kdTree sim) self agent rangeSq 0"

definition computeNeighbors :: "Simulator \<Rightarrow> nat \<Rightarrow> Agent \<Rightarrow> Agent option" where
  "computeNeighbors sim self this =
     (let this = this \<lparr> obstacleNeighbors := [] \<rparr>;
          rangeSq = RVOMath_sqr (timeHorizonObst this * maxSpeed this + radius this)
      in case computeObstacleNeighbors sim this rangeSq of
           None \<Rightarrow> None
         | Some this \<Rightarrow>
            (let this = this \<lparr> agentNeighbors := [] \<rparr> in
             if maxNeighbors this > 0 then
               (let rangeSq = RVOMath_sqr (neighborDist this) in
                case computeAgentNeighbors sim self this rangeSq of
                  None \<Rightarrow> None
                | Some (this, rangeSq) \<Rightarrow> Some this)
             else Some this))"

section \<open>KdTree: building the agent tree\<close>

text \<open>The position of the agent at place \<open>i\<close> of \<^verbatim>\<open>this.agents\<close>.\<close>

definition agent_position :: "Agent list \<Rightarrow> nat list \<Rightarrow> nat \<Rightarrow> Vector2 option" where
  "agent_position store kd_agents i =
     (case deref kd_agents i of
        None \<Rightarrow> None
      | Some r \<Rightarrow> (case deref store r of None \<Rightarrow> None | Some a \<Rightarrow> Some (position a)))"

text \<open>The loop that grows the bounding box of a node over the places \<open>is\<close>.\<close>

fun bounding_box ::
  "Agent list \<Rightarrow> nat list \<Rightarrow> nat list \<Rightarrow> AgentTreeNode \<Rightarrow> AgentTreeNode option" where
  "bounding_box store kd_agents [] nd = Some nd"
| "bounding_box store kd_agents (i # is) nd =
     (case agent_position store kd_agents i of
        None \<Rightarrow> None
      | Some p \<Rightarrow>
         bounding_box store kd_agents is
           (nd \<lparr> maxX := Math_max (maxX nd) (x_v p),
                 minX := Math_min (minX nd) (x_v p),
                 maxY := Math_max (maxY nd) (y_v p),
                 minY := Math_min (minY nd) (y_v p) \<rparr>))"

definition split_coordinate :: "bool \<Rightarrow> Vector2 \<Rightarrow> number" where
  "split_coordinate isVertical p = (if isVertical then x_v p else y_v p)"

text \<open>The two inner \<^verbatim>\<open>while\<close> loops of the partition, and the outer one.\<close>

function scan_left ::
  "Agent list \<Rightarrow> nat list \<Rightarrow> bool \<Rightarrow> number \<Rightarrow> nat \<Rightarrow> nat \<Rightarrow> nat option" where
  "scan_left store kd_agents isVertical splitValue left right =
     (if left < right then
        (case agent_position store kd_agents left of
           None \<Rightarrow> None
         | Some p \<Rightarrow>
            if split_coordinate isVertical p < splitValue
            then scan_left store kd_agents isVertical splitValue (left + 1) right
            else Some left)
      else Some left)"
  by pat_completeness auto
termination
  by (relation "measure (\<lambda>(store, kd_agents, isVertical, splitValue, left, right). right - left)")
    auto

function scan_right ::
  "Agent list \<Rightarrow> nat list \<Rightarrow> bool \<Rightarrow> number \<Rightarrow> nat \<Rightarrow> nat \<Rightarrow> nat option" where
  "scan_right store kd_agents isVertical splitValue left right =
     (if right > left then
        (case agent_position store kd_agents (right - 1) of
           None \<Rightarrow> None
         | Some p \<Rightarrow>
            if split_coordinate isVertical p \<ge> splitValue
            then scan_right store kd_agents isVertical splitValue left (right - 1)
            else Some right)
      else Some right)"
  by pat_completeness auto
termination
  by (relation "measure (\<lambda>(store, kd_agents, isVertical, splitValue, left, right). right - left)")
    auto

declare scan_left.simps [simp del] scan_right.simps [simp del]

lemma scan_left_ge:
  "scan_left store kd_agents isVertical splitValue left right = Some l \<Longrightarrow> left \<le> l"
proof (induction store kd_agents isVertical splitValue left right rule: scan_left.induct)
  case (1 store kd_agents isVertical splitValue left right)
  show ?case
  proof (cases "left < right")
    case False
    then show ?thesis using "1.prems" by (simp add: scan_left.simps)
  next
    case True
    then obtain p where p: "agent_position store kd_agents left = Some p"
      using "1.prems" by (auto simp: scan_left.simps split: option.splits)
    show ?thesis
    proof (cases "split_coordinate isVertical p < splitValue")
      case True
      with \<open>left < right\<close> p "1.prems" "1.IH" [of p] have "left + 1 \<le> l"
        by (simp add: scan_left.simps)
      then show ?thesis by simp
    next
      case False
      with \<open>left < right\<close> p "1.prems" show ?thesis by (simp add: scan_left.simps)
    qed
  qed
qed

lemma scan_right_le:
  "scan_right store kd_agents isVertical splitValue left right = Some r \<Longrightarrow> r \<le> right"
proof (induction store kd_agents isVertical splitValue left right rule: scan_right.induct)
  case (1 store kd_agents isVertical splitValue left right)
  show ?case
  proof (cases "left < right")
    case False
    then show ?thesis using "1.prems" by (simp add: scan_right.simps)
  next
    case True
    then obtain p where p: "agent_position store kd_agents (right - 1) = Some p"
      using "1.prems" by (auto simp: scan_right.simps split: option.splits)
    show ?thesis
    proof (cases "splitValue \<le> split_coordinate isVertical p")
      case True
      with \<open>left < right\<close> p "1.prems" "1.IH" [of p] have "r \<le> right - 1"
        by (simp add: scan_right.simps)
      then show ?thesis by simp
    next
      case False
      with \<open>left < right\<close> p "1.prems" show ?thesis by (simp add: scan_right.simps)
    qed
  qed
qed

function partition_agents ::
  "Agent list \<Rightarrow> bool \<Rightarrow> number \<Rightarrow> nat list \<Rightarrow> nat \<Rightarrow> nat \<Rightarrow> (nat list \<times> nat \<times> nat) option" where
  "partition_agents store isVertical splitValue kd_agents left right =
     (if left < right then
        (case scan_left store kd_agents isVertical splitValue left right of
           None \<Rightarrow> None
         | Some left' \<Rightarrow>
            (case scan_right store kd_agents isVertical splitValue left' right of
               None \<Rightarrow> None
             | Some right' \<Rightarrow>
                if left' < right' then
                  partition_agents store isVertical splitValue
                    (kd_agents [left' := kd_agents ! (right' - 1),
                                right' - 1 := kd_agents ! left'])
                    (left' + 1) (right' - 1)
                else partition_agents store isVertical splitValue kd_agents left' right'))
      else Some (kd_agents, left, right))"
  by pat_completeness auto
termination
proof (relation "measure (\<lambda>(store, isVertical, splitValue, kd_agents, left, right). right - left)",
    goal_cases)
  case 1
  show ?case by simp
next
  case (2 store isVertical splitValue kd_agents left right left' right')
  have "left \<le> left'" using 2(2) by (rule scan_left_ge)
  moreover have "right' \<le> right" using 2(3) by (rule scan_right_le)
  ultimately show ?case using 2(4) by simp
next
  case (3 store isVertical splitValue kd_agents left right left' right')
  then show ?case by simp
qed

declare partition_agents.simps [simp del]

partial_function (option) buildAgentTreeRecursive ::
  "Agent list \<Rightarrow> KdTree \<Rightarrow> nat \<Rightarrow> nat \<Rightarrow> nat \<Rightarrow> KdTree option" where
  "buildAgentTreeRecursive store kd begin' end' node =
     (case deref (agentTree kd) node of
        None \<Rightarrow> None
      | Some nd \<Rightarrow>
         (case agent_position store (agents_kd kd) begin' of
            None \<Rightarrow> None
          | Some p \<Rightarrow>
             (case bounding_box store (agents_kd kd) [begin' + 1 ..< end']
                     (nd \<lparr> begin_n := begin', end_n := end',
                           maxX := x_v p, minX := x_v p, maxY := y_v p, minY := y_v p \<rparr>) of
                None \<Rightarrow> None
              | Some nd \<Rightarrow>
                 (let kd = kd \<lparr> agentTree := (agentTree kd) [node := nd] \<rparr> in
                  if end' - begin' > MAX_LEAF_SIZE then
                    (let isVertical = (maxX nd - minX nd > maxY nd - minY nd);
                         splitValue = Fin 0.5 * (if isVertical then maxX nd + minX nd
                                                 else maxY nd + minY nd)
                     in case partition_agents store isVertical splitValue (agents_kd kd)
                               begin' end' of
                          None \<Rightarrow> None
                        | Some (kd_agents, left, right) \<Rightarrow>
                           (let kd = kd \<lparr> agents_kd := kd_agents \<rparr>;
                                leftSize = left - begin';
                                (leftSize, left) =
                                   (if leftSize = 0 then (1, left + 1) else (leftSize, left));
                                kd = kd \<lparr> agentTree := (agentTree kd)
                                        [node := nd \<lparr> left_n := node + 1,
                                                       right_n := node + 2 * leftSize \<rparr>] \<rparr>
                            in do {
                                 kd \<leftarrow> buildAgentTreeRecursive store kd begin' left (node + 1);
                                 buildAgentTreeRecursive store kd left end' (node + 2 * leftSize)
                               }))
                  else Some kd))))"

definition buildAgentTree :: "Simulator \<Rightarrow> KdTree option" where
  "buildAgentTree sim =
     (let kd = kdTree sim;
          kd = (if length (agents_kd kd) \<noteq> getNumAgents sim
                then kd \<lparr> agents_kd := [0 ..< getNumAgents sim],
                          agentTree := replicate (2 * getNumAgents sim) new_AgentTreeNode \<rparr>
                else kd)
      in if length (agents_kd kd) \<noteq> 0
         then buildAgentTreeRecursive (agents sim) kd 0 (length (agents_kd kd)) 0
         else Some kd)"

section \<open>Agent: the linear programs\<close>

text \<open>
  The loop of \<^verbatim>\<open>linearProgram1\<close> over the lines before \<open>lineNo\<close>, from place \<open>i\<close> on;
  \<open>None\<close> is the early \<^verbatim>\<open>return false\<close>.
\<close>

function linearProgram1_loop ::
  "Line list \<Rightarrow> nat \<Rightarrow> nat \<Rightarrow> number \<Rightarrow> number \<Rightarrow> (number \<times> number) option" where
  "linearProgram1_loop lines lineNo i tLeft tRight =
     (if i < lineNo then
        (let denominator = RVOMath_det (direction (lines ! lineNo)) (direction (lines ! i));
             numerator = RVOMath_det (direction (lines ! i))
                           (Vector2_subtract (point (lines ! lineNo)) (point (lines ! i)))
         in if Math_abs denominator \<le> RVO_EPSILON then
              (if numerator < Fin 0 then None
               else linearProgram1_loop lines lineNo (i + 1) tLeft tRight)
            else
              (let t = numerator / denominator;
                   tRight = (if denominator \<ge> Fin 0 then Math_min tRight t else tRight);
                   tLeft = (if denominator \<ge> Fin 0 then tLeft else Math_max tLeft t)
               in if tLeft > tRight then None
                  else linearProgram1_loop lines lineNo (i + 1) tLeft tRight))
      else Some (tLeft, tRight))"
  by pat_completeness auto
termination
  by (relation "measure (\<lambda>(lines, lineNo, i, tLeft, tRight). lineNo - i)") auto

declare linearProgram1_loop.simps [simp del]

text \<open>
  \<^verbatim>\<open>linearProgram1\<close>: \<open>Some v\<close> when it returns true with \<^verbatim>\<open>result.value = v\<close>, \<open>None\<close>
  when it returns false (the result cell is then as it was).
\<close>

definition linearProgram1 ::
  "Line list \<Rightarrow> nat \<Rightarrow> number \<Rightarrow> Vector2 \<Rightarrow> bool \<Rightarrow> Vector2 option" where
  "linearProgram1 lines lineNo radius' optVelocity directionOpt =
     (let dotProduct = Vector2_dot (point (lines ! lineNo)) (direction (lines ! lineNo));
          discriminant = RVOMath_sqr dotProduct + RVOMath_sqr radius'
                           - RVOMath_absSq (point (lines ! lineNo))
      in if discriminant < Fin 0 then None
         else
           (let sqrtDiscriminant = RVOMath_sqrt discriminant;
                tLeft = - dotProduct - sqrtDiscriminant;
                tRight = - dotProduct + sqrtDiscriminant
            in case linearProgram1_loop lines lineNo 0 tLeft tRight of
                 None \<Rightarrow> None
               | Some (tLeft, tRight) \<Rightarrow>
                  (if directionOpt then
                     (if Vector2_dot optVelocity (direction (lines ! lineNo)) > Fin 0
                      then Some (Vector2_add (point (lines ! lineNo))
                                   (Vector2_multiply (direction (lines ! lineNo)) tRight))
                      else Some (Vector2_add (point (lines ! lineNo))
                                   (Vector2_multiply (direction (lines ! lineNo)) tLeft)))
                   else
                     (let t = Vector2_dot (direction (lines ! lineNo))
                                (Vector2_subtract optVelocity (point (lines ! lineNo)))
                      in if t < tLeft
                         then Some (Vector2_add (point (lines ! lineNo))
                                      (Vector2_multiply (direction (lines ! lineNo)) tLeft))
                         else if t > tRight
                         then Some (Vector2_add (point (lines ! lineNo))
                                      (Vector2_multiply (direction (lines ! lineNo)) tRight))
                         else Some (Vector2_add (point (lines ! lineNo))
                                      (Vector2_multiply (direction (lines ! lineNo)) t))))))"

text \<open>The loop of \<^verbatim>\<open>linearProgram2\<close> from line \<open>i\<close> on; it returns the line it fails on.\<close>

function linearProgram2_loop ::
  "Line list \<Rightarrow> number \<Rightarrow> Vector2 \<Rightarrow> bool \<Rightarrow> nat \<Rightarrow> Agent \<Rightarrow> nat \<times> Agent" where
  "linearProgram2_loop lines radius' optVelocity directionOpt i this =
     (if i < length lines then
        (if RVOMath_det (direction (lines ! i))
              (Vector2_subtract (point (lines ! i)) (newVelocity this)) > Fin 0
         then
           (let tempResult = newVelocity this in
            case linearProgram1 lines i radius' optVelocity directionOpt of
              None \<Rightarrow> (i, this \<lparr> newVelocity := tempResult \<rparr>)
            | Some result \<Rightarrow>
               linearProgram2_loop lines radius' optVelocity directionOpt (i + 1)
                 (this \<lparr> newVelocity := result \<rparr>))
         else linearProgram2_loop lines radius' optVelocity directionOpt (i + 1) this)
      else (length lines, this))"
  by pat_completeness auto
termination
  by (relation "measure (\<lambda>(lines, radius', optVelocity, directionOpt, i, this). length lines - i)")
    auto

declare linearProgram2_loop.simps [simp del]

definition linearProgram2 ::
  "Line list \<Rightarrow> number \<Rightarrow> Vector2 \<Rightarrow> bool \<Rightarrow> Agent \<Rightarrow> nat \<times> Agent" where
  "linearProgram2 lines radius' optVelocity directionOpt this =
     (let this =
        (if directionOpt then
           this \<lparr> newVelocity := Vector2_multiply optVelocity radius' \<rparr>
         else if RVOMath_absSq optVelocity > RVOMath_sqr radius' then
           this \<lparr> newVelocity := Vector2_multiply (RVOMath_normalize optVelocity) radius' \<rparr>
         else
           this \<lparr> newVelocity := optVelocity \<rparr>)
      in linearProgram2_loop lines radius' optVelocity directionOpt 0 this)"

text \<open>
  The lines that \<^verbatim>\<open>linearProgram3\<close> projects line \<open>i\<close> against: one for each \<open>j\<close> of
  \<open>js\<close>, none where line \<open>j\<close> is parallel to line \<open>i\<close> and points the same way.
\<close>

fun linearProgram3_projLines :: "Line list \<Rightarrow> nat \<Rightarrow> nat list \<Rightarrow> Line list" where
  "linearProgram3_projLines lines i [] = []"
| "linearProgram3_projLines lines i (j # js) =
     (let determinant = RVOMath_det (direction (lines ! i)) (direction (lines ! j)) in
      if Math_abs determinant \<le> RVO_EPSILON then
        (if Vector2_dot (direction (lines ! i)) (direction (lines ! j)) > Fin 0
         then linearProgram3_projLines lines i js
         else
           \<lparr> point = Vector2_multiply
                        (Vector2_add (point (lines ! i)) (point (lines ! j))) (Fin 0.5),
             direction = RVOMath_normalize
                           (Vector2_subtract (direction (lines ! j)) (direction (lines ! i))) \<rparr>
           # linearProgram3_projLines lines i js)
      else
        \<lparr> point = Vector2_add (point (lines ! i))
                    (Vector2_multiply (direction (lines ! i))
                       (RVOMath_det (direction (lines ! j))
                          (Vector2_subtract (point (lines ! i)) (point (lines ! j)))
                        / determinant)),
          direction = RVOMath_normalize
                        (Vector2_subtract (direction (lines ! j)) (direction (lines ! i))) \<rparr>
        # linearProgram3_projLines lines i js)"

text \<open>
  The loop of \<^verbatim>\<open>linearProgram3\<close> from line \<open>i\<close> on. The cell \<^verbatim>\<open>result\<close> is created
  with the velocity held before \<^verbatim>\<open>linearProgram2\<close> runs and nothing writes to it.
\<close>

function linearProgram3_loop ::
  "Line list \<Rightarrow> nat \<Rightarrow> number \<Rightarrow> nat \<Rightarrow> number \<Rightarrow> Agent \<Rightarrow> Agent" where
  "linearProgram3_loop lines numObstLines radius' i distance this =
     (if i < length lines then
        (if RVOMath_det (direction (lines ! i))
              (Vector2_subtract (point (lines ! i)) (newVelocity this)) > distance
         then
           (let projLines = map (\<lambda>ii. lines ! ii) [0 ..< numObstLines]
                              @ linearProgram3_projLines lines i [numObstLines ..< i];
                tempResult = newVelocity this;
                result = newVelocity this;
                (lineFail, this) =
                   linearProgram2 projLines radius'
                     (Vector2 (- y_v (direction (lines ! i))) (x_v (direction (lines ! i))))
                     True this;
                this = (if lineFail < length projLines
                        then this \<lparr> newVelocity := tempResult \<rparr>
                        else this \<lparr> newVelocity := result \<rparr>);
                distance = RVOMath_det (direction (lines ! i))
                             (Vector2_subtract (point (lines ! i)) (newVelocity this))
            in linearProgram3_loop lines numObstLines radius' (i + 1) distance this)
         else linearProgram3_loop lines numObstLines radius' (i + 1) distance this)
      else this)"
  by pat_completeness auto
termination
  by (relation "measure (\<lambda>(lines, numObstLines, radius', i, distance, this). length lines - i)")
    auto

declare linearProgram3_loop.simps [simp del]

definition linearProgram3 :: "Line list \<Rightarrow> nat \<Rightarrow> nat \<Rightarrow> number \<Rightarrow> Agent \<Rightarrow> Agent" where
  "linearProgram3 lines numObstLines beginLine radius' this =
     linearProgram3_loop lines numObstLines radius' beginLine (Fin 0) this"

section \<open>Agent: ORCA lines and the new velocity\<close>

text \<open>The test of the inner loop of the obstacle part: some line of \<open>lines\<close> covers the edge.\<close>

fun alreadyCovered :: "number \<Rightarrow> number \<Rightarrow> Vector2 \<Rightarrow> Vector2 \<Rightarrow> Line list \<Rightarrow> bool" where
  "alreadyCovered invTimeHorizonObst radius' relativePosition1 relativePosition2 [] = False"
| "alreadyCovered invTimeHorizonObst radius' relativePosition1 relativePosition2 (line # lines) =
     (let det1 = RVOMath_det
                   (Vector2_subtract (Vector2_multiply relativePosition1 invTimeHorizonObst)
                      (point line)) (direction line);
          det2 = RVOMath_det
                   (Vector2_subtract (Vector2_multiply relativePosition2 invTimeHorizonObst)
                      (point line)) (direction line)
      in if det1 - invTimeHorizonObst * radius' \<ge> - RVO_EPSILON
            \<and> det2 - invTimeHorizonObst * radius' \<ge> - RVO_EPSILON
         then True
         else alreadyCovered invTimeHorizonObst radius' relativePosition1 relativePosition2 lines)"

definition push_line :: "Agent \<Rightarrow> Line \<Rightarrow> Agent" where
  "push_line this line = this \<lparr> orcaLines := orcaLines this @ [line] \<rparr>"

text \<open>The two tangent directions from the origin to the disc of radius \<open>r\<close> around \<open>p\<close>.\<close>

definition leg_left :: "Vector2 \<Rightarrow> number \<Rightarrow> number \<Rightarrow> number \<Rightarrow> Vector2" where
  "leg_left p leg r distSq =
     Vector2_divide (Vector2 (x_v p * leg - y_v p * r) (x_v p * r + y_v p * leg)) distSq"

definition leg_right :: "Vector2 \<Rightarrow> number \<Rightarrow> number \<Rightarrow> number \<Rightarrow> Vector2" where
  "leg_right p leg r distSq =
     Vector2_divide (Vector2 (x_v p * leg + y_v p * r) (- x_v p * r + y_v p * leg)) distSq"

text \<open>
  The obstacle loop of \<^verbatim>\<open>computeNewVelocity\<close>, one round for the neighbour edge from
  vertex \<open>o1\<close> to its successor \<open>o2\<close>, in the order of the source: the leg directions,
  the test for foreign legs, the line that is emitted, and the round itself.

  The leg directions; \<open>None\<close> where the round ends with \<^verbatim>\<open>continue\<close>.
\<close>

definition obstacleLegs ::
  "Agent \<Rightarrow> Obstacle \<Rightarrow> Obstacle \<Rightarrow> Vector2 \<Rightarrow> Vector2 \<Rightarrow> number \<Rightarrow> number
     \<Rightarrow> (Vector2 \<times> Vector2) option" where
  "obstacleLegs this obstacle1 obstacle2 relativePosition1 relativePosition2 s distSqLine =
     (let distSq1 = RVOMath_absSq relativePosition1;
          distSq2 = RVOMath_absSq relativePosition2;
          radiusSq = RVOMath_sqr (radius this)
      in
      if s < Fin 0 \<and> distSqLine \<le> radiusSq then
        (if \<not> convex_o obstacle1 then None
         else
           (let leg1 = RVOMath_sqrt (distSq1 - radiusSq) in
            Some (leg_left relativePosition1 leg1 (radius this) distSq1,
                  leg_right relativePosition1 leg1 (radius this) distSq1)))
      else if s > Fin 1 \<and> distSqLine \<le> radiusSq then
        (if \<not> convex_o obstacle2 then None
         else
           (let leg2 = RVOMath_sqrt (distSq2 - radiusSq) in
            Some (leg_left relativePosition2 leg2 (radius this) distSq2,
                  leg_right relativePosition2 leg2 (radius this) distSq2)))
      else
        Some
          (if convex_o obstacle1
           then leg_left relativePosition1 (RVOMath_sqrt (distSq1 - radiusSq))
                  (radius this) distSq1
           else Vector2_negate (direction_o obstacle1),
           if convex_o obstacle2
           then leg_right relativePosition2 (RVOMath_sqrt (distSq2 - radiusSq))
                  (radius this) distSq2
           else direction_o obstacle1))"

text \<open>
  The left leg against the edge before \<open>obstacle1\<close>; \<^verbatim>\<open>leftNeighbor.direction\<close> is read
  only for a convex \<open>obstacle1\<close>, and reading it from \<^verbatim>\<open>null\<close> is a TypeError (\<open>None\<close>).
\<close>

definition obstacleLeftLeg ::
  "Obstacle list \<Rightarrow> Obstacle \<Rightarrow> Vector2 \<Rightarrow> (Vector2 \<times> bool) option" where
  "obstacleLeftLeg obs obstacle1 leftLegDirection =
     (if convex_o obstacle1 then
        (case previous_o obstacle1 of None \<Rightarrow> None | Some pn \<Rightarrow>
        (case deref obs pn of None \<Rightarrow> None | Some leftNeighbor \<Rightarrow>
           Some (if RVOMath_det leftLegDirection
                      (Vector2_negate (direction_o leftNeighbor)) \<ge> Fin 0
                 then (Vector2_negate (direction_o leftNeighbor), True)
                 else (leftLegDirection, False))))
      else Some (leftLegDirection, False))"

definition obstacleRightLeg :: "Obstacle \<Rightarrow> Vector2 \<Rightarrow> Vector2 \<times> bool" where
  "obstacleRightLeg obstacle2 rightLegDirection =
     (if convex_o obstacle2 \<and> RVOMath_det rightLegDirection (direction_o obstacle2) \<le> Fin 0
      then (direction_o obstacle2, True)
      else (rightLegDirection, False))"

text \<open>
  The projection of the velocity on the cut-off line and the legs, and the line that is
  pushed; \<open>None\<close> where the nearest leg is foreign and the round ends with \<^verbatim>\<open>continue\<close>.
\<close>

definition obstacleCutOffLine ::
  "Agent \<Rightarrow> Obstacle \<Rightarrow> bool \<Rightarrow> number \<Rightarrow> Vector2 \<Rightarrow> Vector2
     \<Rightarrow> Vector2 \<Rightarrow> bool \<Rightarrow> Vector2 \<Rightarrow> bool \<Rightarrow> Line option" where
  "obstacleCutOffLine this obstacle1 same invTimeHorizonObst relativePosition1 relativePosition2
       leftLegDirection isLeftLegForeign rightLegDirection isRightLegForeign =
     (let leftCutOff = Vector2_multiply relativePosition1 invTimeHorizonObst;
          rightCutOff = Vector2_multiply relativePosition2 invTimeHorizonObst;
          cutOffVector = Vector2_subtract rightCutOff leftCutOff;
          t = (if same then Fin 0.5
               else Vector2_dot (Vector2_subtract (velocity this) leftCutOff) cutOffVector
                      / RVOMath_absSq cutOffVector);
          tLeft = Vector2_dot (Vector2_subtract (velocity this) leftCutOff) leftLegDirection;
          tRight = Vector2_dot (Vector2_subtract (velocity this) rightCutOff) rightLegDirection
      in
      if (t < Fin 0 \<and> tLeft < Fin 0) \<or> (same \<and> tLeft < Fin 0 \<and> tRight < Fin 0) then
        (let unitW = RVOMath_normalize (Vector2_subtract (velocity this) leftCutOff) in
         Some \<lparr> point = Vector2_add leftCutOff
                          (Vector2_multiply unitW (radius this * invTimeHorizonObst)),
                direction = Vector2 (y_v unitW) (- x_v unitW) \<rparr>)
      else if t > Fin 1 \<and> tRight < Fin 0 then
        (let unitW = RVOMath_normalize (Vector2_subtract (velocity this) rightCutOff) in
         Some \<lparr> point = Vector2_add rightCutOff
                          (Vector2_multiply unitW (radius this * invTimeHorizonObst)),
                direction = Vector2 (y_v unitW) (- x_v unitW) \<rparr>)
      else
        (let distSqCutoff =
               (if t < Fin 0 \<or> t > Fin 1 \<or> same then PInf
                else RVOMath_absSq (Vector2_subtract (velocity this)
                       (Vector2_add leftCutOff (Vector2_multiply cutOffVector t))));
             distSqLeft =
               (if tLeft < Fin 0 then PInf
                else RVOMath_absSq (Vector2_subtract (velocity this)
                       (Vector2_add leftCutOff (Vector2_multiply leftLegDirection tLeft))));
             distSqRight =
               (if tRight < Fin 0 then PInf
                else RVOMath_absSq (Vector2_subtract (velocity this)
                       (Vector2_add rightCutOff (Vector2_multiply rightLegDirection tRight))))
         in
         if distSqCutoff \<le> distSqLeft \<and> distSqCutoff \<le> distSqRight then
           (let d = Vector2_negate (direction_o obstacle1) in
            Some \<lparr> point = Vector2_add leftCutOff
                             (Vector2_multiply (Vector2 (- y_v d) (x_v d))
                                (radius this * invTimeHorizonObst)),
                   direction = d \<rparr>)
         else if distSqLeft \<le> distSqRight then
           (if isLeftLegForeign then None
            else
              (let d = leftLegDirection in
               Some \<lparr> point = Vector2_add leftCutOff
                                (Vector2_multiply (Vector2 (- y_v d) (x_v d))
                                   (radius this * invTimeHorizonObst)),
                      direction = d \<rparr>))
         else
           (if isRightLegForeign then None
            else
              (let d = Vector2_negate rightLegDirection in
               Some \<lparr> point = Vector2_add rightCutOff
                                (Vector2_multiply (Vector2 (- y_v d) (x_v d))
                                   (radius this * invTimeHorizonObst)),
                      direction = d \<rparr>))))"

text \<open>
  The round: the agent with the line pushed, or as it was where the round ends with
  \<^verbatim>\<open>continue\<close>; \<open>None\<close> for a TypeError.
\<close>

definition obstacleOrcaLine :: "Obstacle list \<Rightarrow> Agent \<Rightarrow> nat \<Rightarrow> Agent option" where
  "obstacleOrcaLine obs this o1 =
  (case deref obs o1 of None \<Rightarrow> None | Some obstacle1 \<Rightarrow>
  (case next_o obstacle1 of None \<Rightarrow> None | Some o2 \<Rightarrow>
  (case deref obs o2 of None \<Rightarrow> None | Some obstacle2 \<Rightarrow>
  (let invTimeHorizonObst = Fin 1 / timeHorizonObst this;
       relativePosition1 = Vector2_subtract (point_o obstacle1) (position this);
       relativePosition2 = Vector2_subtract (point_o obstacle2) (position this)
   in
   if alreadyCovered invTimeHorizonObst (radius this) relativePosition1 relativePosition2
        (orcaLines this)
   then Some this
   else
   (let distSq1 = RVOMath_absSq relativePosition1;
        distSq2 = RVOMath_absSq relativePosition2;
        radiusSq = RVOMath_sqr (radius this);
        obstacleVector = Vector2_subtract (point_o obstacle2) (point_o obstacle1);
        s = (- Vector2_dot relativePosition1 obstacleVector) / RVOMath_absSq obstacleVector;
        distSqLine = RVOMath_absSq (Vector2_subtract (Vector2_negate relativePosition1)
                                      (Vector2_multiply obstacleVector s))
    in
    if s < Fin 0 \<and> distSq1 \<le> radiusSq then
      Some (if convex_o obstacle1
            then push_line this
                   \<lparr> point = Vector2 (Fin 0) (Fin 0),
                     direction = RVOMath_normalize
                       (Vector2 (- y_v relativePosition1) (x_v relativePosition1)) \<rparr>
            else this)
    else if s > Fin 1 \<and> distSq2 \<le> radiusSq then
      Some (if convex_o obstacle2
            then push_line this
                   \<lparr> point = Vector2 (Fin 0) (Fin 0),
                     direction = RVOMath_normalize
                       (Vector2 (- y_v relativePosition2) (x_v relativePosition2)) \<rparr>
            else this)
    else if s \<ge> Fin 0 \<and> s \<le> Fin 1 \<and> distSqLine \<le> radiusSq then
      Some (push_line this
              \<lparr> point = Vector2 (Fin 0) (Fin 0),
                direction = Vector2_negate (direction_o obstacle1) \<rparr>)
    else
    (case obstacleLegs this obstacle1 obstacle2 relativePosition1 relativePosition2 s
            distSqLine of
       None \<Rightarrow> Some this
     | Some (leftLegDirection, rightLegDirection) \<Rightarrow>
    (case obstacleLeftLeg obs obstacle1 leftLegDirection of
       None \<Rightarrow> None
     | Some (leftLegDirection, isLeftLegForeign) \<Rightarrow>
    (let (rightLegDirection, isRightLegForeign) =
           obstacleRightLeg obstacle2 rightLegDirection
     in case obstacleCutOffLine this obstacle1 (o1 = o2) invTimeHorizonObst
               relativePosition1 relativePosition2
               leftLegDirection isLeftLegForeign rightLegDirection isRightLegForeign of
          None \<Rightarrow> Some this
        | Some line \<Rightarrow> Some (push_line this line)))))))))"

fun obstacleOrcaLines :: "Obstacle list \<Rightarrow> nat list \<Rightarrow> Agent \<Rightarrow> Agent option" where
  "obstacleOrcaLines obs [] this = Some this"
| "obstacleOrcaLines obs (o1 # os) this =
     (case obstacleOrcaLine obs this o1 of
        None \<Rightarrow> None
      | Some this \<Rightarrow> obstacleOrcaLines obs os this)"

text \<open>One round of the agent loop of \<^verbatim>\<open>computeNewVelocity\<close>: the line for the neighbour.\<close>

definition agentOrcaLine :: "number \<Rightarrow> Agent \<Rightarrow> Agent \<Rightarrow> Line" where
  "agentOrcaLine timeStep' this other =
     (let invTimeHorizon = Fin 1 / timeHorizon this;
          relativePosition = Vector2_subtract (position other) (position this);
          relativeVelocity = Vector2_subtract (velocity this) (velocity other);
          distSq = RVOMath_absSq relativePosition;
          combinedRadius = radius this + radius other;
          combinedRadiusSq = RVOMath_sqr combinedRadius;
          (d, u) =
            (if distSq > combinedRadiusSq then
               (let w = Vector2_subtract relativeVelocity
                          (Vector2_multiply relativePosition invTimeHorizon);
                    wLengthSq = RVOMath_absSq w;
                    dotProduct1 = Vector2_dot w relativePosition
                in if dotProduct1 < Fin 0
                      \<and> RVOMath_sqr dotProduct1 > combinedRadiusSq * wLengthSq then
                     (let wLength = RVOMath_sqrt wLengthSq;
                          unitW = Vector2_divide w wLength
                      in (Vector2 (y_v unitW) (- x_v unitW),
                          Vector2_multiply unitW (combinedRadius * invTimeHorizon - wLength)))
                   else
                     (let leg = RVOMath_sqrt (distSq - combinedRadiusSq);
                          d = (if RVOMath_det relativePosition w > Fin 0
                               then leg_left relativePosition leg combinedRadius distSq
                               else Vector2_negate
                                      (leg_right relativePosition leg combinedRadius distSq));
                          dotProduct2 = Vector2_dot relativeVelocity d
                      in (d, Vector2_subtract (Vector2_multiply d dotProduct2)
                               relativeVelocity)))
             else
               (let invTimeStep = Fin 1 / timeStep';
                    w = Vector2_subtract relativeVelocity
                          (Vector2_multiply relativePosition invTimeStep);
                    wLength = RVOMath_abs w;
                    unitW = Vector2_divide w wLength
                in (Vector2 (y_v unitW) (- x_v unitW),
                    Vector2_multiply unitW (combinedRadius * invTimeStep - wLength))))
      in \<lparr> point = Vector2_add (velocity this) (Vector2_multiply u (Fin 0.5)),
           direction = d \<rparr>)"

fun agentOrcaLines :: "Agent list \<Rightarrow> number \<Rightarrow> nat list \<Rightarrow> Agent \<Rightarrow> Agent option" where
  "agentOrcaLines store timeStep' [] this = Some this"
| "agentOrcaLines store timeStep' (r # rs) this =
     (case deref store r of
        None \<Rightarrow> None
      | Some other \<Rightarrow>
         agentOrcaLines store timeStep' rs (push_line this (agentOrcaLine timeStep' this other)))"

definition computeNewVelocity :: "Simulator \<Rightarrow> Agent \<Rightarrow> Agent option" where
  "computeNewVelocity sim this =
     (let this = this \<lparr> orcaLines := [] \<rparr> in
      case obstacleOrcaLines (obstacles sim) (map snd (obstacleNeighbors this)) this of
        None \<Rightarrow> None
      | Some this \<Rightarrow>
         (case agentOrcaLines (agents sim) (getTimeStep sim) (map snd (agentNeighbors this))
                 this of
            None \<Rightarrow> None
          | Some this \<Rightarrow>
             (let numObstLines = length (orcaLines this);
                  (lineFail, this) =
                     linearProgram2 (orcaLines this) (maxSpeed this) (prefVelocity this)
                       False this
              in Some (if lineFail < length (orcaLines this)
                       then linearProgram3 (orcaLines this) numObstLines lineFail
                              (maxSpeed this) this
                       else this))))"

definition update :: "Simulator \<Rightarrow> Agent \<Rightarrow> Agent" where
  "update sim this =
     (let this = this \<lparr> velocity := newVelocity this \<rparr> in
      this \<lparr> position := Vector2_add (position this)
                           (Vector2_multiply (velocity this) (getTimeStep sim)) \<rparr>)"

section \<open>Simulator: a simulation step\<close>

text \<open>
  The first loop of \<^verbatim>\<open>doStep\<close>, over the agents at the places \<open>is\<close>; each agent is
  written back to its place before the next one is computed.
\<close>

fun doStep_compute :: "nat list \<Rightarrow> Simulator \<Rightarrow> Simulator option" where
  "doStep_compute [] sim = Some sim"
| "doStep_compute (i # is) sim =
     (case computeNeighbors sim i (agents sim ! i) of
        None \<Rightarrow> None
      | Some agent \<Rightarrow>
         (case computeNewVelocity sim agent of
            None \<Rightarrow> None
          | Some agent \<Rightarrow> doStep_compute is (sim \<lparr> agents := (agents sim) [i := agent] \<rparr>)))"

definition doStep :: "Simulator \<Rightarrow> (number \<times> Simulator) option" where
  "doStep sim =
     (case buildAgentTree sim of
        None \<Rightarrow> None
      | Some kd \<Rightarrow>
         (case doStep_compute [0 ..< length (agents sim)] (sim \<lparr> kdTree := kd \<rparr>) of
            None \<Rightarrow> None
          | Some sim \<Rightarrow>
             (let sim = sim \<lparr> agents := map (update sim) (agents sim) \<rparr>;
                  sim = sim \<lparr> globalTime := globalTime sim + timeStep sim \<rparr>
              in Some (globalTime sim, sim))))"

section \<open>Sequences of add calls\<close>

datatype AddCall =
  AddAgent Vector2
  | AddAgentWithParams Vector2 number int number number number number Vector2

fun add_call :: "AddCall \<Rightarrow> Simulator \<Rightarrow> Simulator" where
  "add_call (AddAgent pos) sim = snd (addAgent sim pos)"
| "add_call (AddAgentWithParams pos nd mn th tho r ms v) sim =
     snd (addAgentWithParams sim pos nd mn th tho r ms v)"

text \<open>The agent at index \<open>k\<close> has the identifier \<open>k\<close>, as a check that can be run.\<close>

definition ids_stable :: "Simulator \<Rightarrow> bool" where
  "ids_stable sim = (map id_a (agents sim) = [0 ..< length (agents sim)])"

section \<open>Predicates on the agents of a step\<close>

text \<open>
  The fields of an agent that the first loop of \<^verbatim>\<open>doStep\<close> leaves alone: all but the two
  neighbour lists, the ORCA lines and the new velocity.
\<close>

definition core :: "Agent \<Rightarrow> Agent" where
  "core a = a \<lparr> agentNeighbors := [], obstacleNeighbors := [], orcaLines := [],
               newVelocity := Vector2 (Fin 0) (Fin 0) \<rparr>"

text \<open>
  The list of agent neighbours of \<open>a\<close>, the agent \<open>self\<close> of \<open>store\<close>: not longer than
  \<^verbatim>\<open>maxNeighbors\<close>, every key the squared distance to the agent the entry refers to,
  no entry for \<open>self\<close>, keys ascending.
\<close>

definition neighbours_ok :: "Agent list \<Rightarrow> nat \<Rightarrow> Agent \<Rightarrow> bool" where
  "neighbours_ok store self a =
     (int (length (agentNeighbors a)) \<le> maxNeighbors a
      \<and> (\<forall>p \<in> set (agentNeighbors a).
            snd p \<noteq> self \<and> snd p < length store \<and> fst p \<noteq> NaN
            \<and> fst p = RVOMath_absSq (Vector2_subtract (position a) (position (store ! snd p))))
      \<and> sorted_wrt (\<lambda>p q. fst p \<le> fst q) (agentNeighbors a))"

text \<open>Only the ORCA lines differ between \<open>a\<close> and \<open>b\<close>.\<close>

definition lines_frame :: "Agent \<Rightarrow> Agent \<Rightarrow> bool" where
  "lines_frame a b =
     (core b = core a \<and> agentNeighbors b = agentNeighbors a
      \<and> obstacleNeighbors b = obstacleNeighbors a \<and> newVelocity b = newVelocity a)"

text \<open>
  What the first loop of \<^verbatim>\<open>doStep\<close> establishes for the agent \<open>i\<close>: the new velocity is the
  one \<^verbatim>\<open>linearProgram2\<close> left, as \<^verbatim>\<open>linearProgram3\<close> does not change it.
\<close>

definition computed :: "Agent list \<Rightarrow> nat \<Rightarrow> Agent \<Rightarrow> bool" where
  "computed store i a' =
     (core a' = core (store ! i)
      \<and> (maxNeighbors a' > 0 \<longrightarrow> neighbours_ok store i a')
      \<and> (\<exists>t0. a' = snd (linearProgram2 (orcaLines a') (maxSpeed a') (prefVelocity a') False t0)))"

section \<open>An example step\<close>

text \<open>
  Three agents with radius 1, maximum speed 5 and time horizon 1: two at the origin, at
  rest, the first with the preferred velocity \<open>(-30, -40)\<close>, and one at \<open>(0, -8)\<close> with
  the preferred velocity \<open>(0, 40)\<close>.
\<close>

definition example_sim :: Simulator where
  "example_sim =
     the (setAgentPrefVelocity
       (the (setAgentPrefVelocity
          (snd (addAgent (snd (addAgent (snd (addAgent
             (setAgentDefaults new_Simulator (Fin 15) 10 (Fin 1) (Fin 1) (Fin 1) (Fin 5)
                (Vector2 (Fin 0) (Fin 0)))
             (Vector2 (Fin 0) (Fin 0)))) (Vector2 (Fin 0) (Fin 0))))
             (Vector2 (Fin 0) (Fin (- 8)))))
          0 (Vector2 (Fin (- 30)) (Fin (- 40)))))
       2 (Vector2 (Fin 0) (Fin 40)))"

definition example_agent :: "nat \<Rightarrow> Vector2 \<Rightarrow> Vector2 \<Rightarrow> Agent" where
  "example_agent i p pref =
     \<lparr> agentNeighbors = [], obstacleNeighbors = [], orcaLines = [],
       position = p, prefVelocity = pref,
       velocity = Vector2 (Fin 0) (Fin 0), id_a = i, maxNeighbors = 10,
       maxSpeed = Fin 5, neighborDist = Fin 15, radius = Fin 1, timeHorizon = Fin 1,
       timeHorizonObst = Fin 1, newVelocity = Vector2 (Fin 0) (Fin 0) \<rparr>"

definition example_kd :: KdTree where
  "example_kd =
     \<lparr> agents_kd = [0, 1, 2],
       agentTree = [\<lparr> begin_n = 0, end_n = 3, left_n = 0, right_n = 0,
                      maxX = Fin 0, maxY = Fin 0, minX = Fin 0, minY = Fin (- 8) \<rparr>,
                    new_AgentTreeNode, new_AgentTreeNode, new_AgentTreeNode,
                    new_AgentTreeNode, new_AgentTreeNode],
       obstacleTree = Null \<rparr>"

definition nan_line :: Line where
  "nan_line = \<lparr> point = Vector2 NaN NaN, direction = Vector2 NaN NaN \<rparr>"

definition example_line :: Line where
  "example_line = \<lparr> point = Vector2 (Fin 0) (Fin (- 3)), direction = Vector2 (Fin 1) (Fin 0) \<rparr>"

definition example_line' :: Line where
  "example_line' = \<lparr> point = Vector2 (Fin 0) (Fin 3), direction = Vector2 (Fin (- 1)) (Fin 0) \<rparr>"

text \<open>The three agents after the first loop of the step, and the state after the step.\<close>

definition example_computed :: "Agent list" where
  "example_computed =
     [(example_agent 0 (Vector2 (Fin 0) (Fin 0)) (Vector2 (Fin (- 30)) (Fin (- 40))))
        \<lparr> agentNeighbors := [(Fin 0, 1), (Fin 64, 2)],
          orcaLines := [nan_line, example_line],
          newVelocity := Vector2 (Fin (- 30)) (Fin (- 3)) \<rparr>,
      (example_agent 1 (Vector2 (Fin 0) (Fin 0)) (Vector2 (Fin 0) (Fin 0)))
        \<lparr> agentNeighbors := [(Fin 0, 0), (Fin 64, 2)],
          orcaLines := [nan_line, example_line] \<rparr>,
      (example_agent 2 (Vector2 (Fin 0) (Fin (- 8))) (Vector2 (Fin 0) (Fin 40)))
        \<lparr> agentNeighbors := [(Fin 64, 0), (Fin 64, 1)],
          orcaLines := [example_line', example_line'],
          newVelocity := Vector2 (Fin 0) (Fin 3) \<rparr>]"

definition example_after :: Simulator where
  "example_after =
     example_sim \<lparr> kdTree := example_kd,
                   agents := map (update example_sim) example_computed,
                   globalTime := Fin 0.1 \<rparr>"

section \<open>The coverage test of the obstacle lines\<close>

text \<open>
  The coverage condition in the words of the specification, for one line, and in the
  form the source evaluates it.
\<close>

definition covers_spec :: "number \<Rightarrow> number \<Rightarrow> Vector2 \<Rightarrow> Vector2 \<Rightarrow> Line \<Rightarrow> bool" where
  "covers_spec invTimeHorizonObst radius' p1 p2 L =
     (RVOMath_det (Vector2_subtract (Vector2_multiply p1 invTimeHorizonObst) (point L))
        (direction L) \<ge> radius' * invTimeHorizonObst - RVO_EPSILON
      \<and> RVOMath_det (Vector2_subtract (Vector2_multiply p2 invTimeHorizonObst) (point L))
        (direction L) \<ge> radius' * invTimeHorizonObst - RVO_EPSILON)"

definition covers_code :: "number \<Rightarrow> number \<Rightarrow> Vector2 \<Rightarrow> Vector2 \<Rightarrow> Line \<Rightarrow> bool" where
  "covers_code invTimeHorizonObst radius' p1 p2 L =
     (RVOMath_det (Vector2_subtract (Vector2_multiply p1 invTimeHorizonObst) (point L))
        (direction L) - invTimeHorizonObst * radius' \<ge> - RVO_EPSILON
      \<and> RVOMath_det (Vector2_subtract (Vector2_multiply p2 invTimeHorizonObst) (point L))
        (direction L) - invTimeHorizonObst * radius' \<ge> - RVO_EPSILON)"

text \<open>A wall from \<open>(-1, 1)\<close> to \<open>(1, 1)\<close> and an agent of radius 1 at the origin.\<close>

definition wall_sim :: Simulator where
  "wall_sim = snd (addObstacle new_Simulator
                     [Vector2 (Fin (- 1)) (Fin 1), Vector2 (Fin 1) (Fin 1)])"

definition wall_agent :: Agent where
  "wall_agent =
     new_Agent \<lparr> obstacleNeighbors := [(Fin 1, 0)], maxNeighbors := 10, maxSpeed := Fin 5,
                 neighborDist := Fin 15, radius := Fin 1, timeHorizon := Fin 1,
                 timeHorizonObst := Fin 1 \<rparr>"

definition wall_line :: Line where
  "wall_line = \<lparr> point = Vector2 (Fin 0) (Fin 0), direction = Vector2 (Fin (- 1)) (Fin 0) \<rparr>"

section \<open>The obstacle query\<close>

text \<open>
  The two end points of the edge that starts at the vertex \<open>obstacle\<close>; \<open>None\<close> where the
  source would read a property of \<^verbatim>\<open>null\<close> or \<^verbatim>\<open>undefined\<close>.
\<close>

definition edge_points :: "Obstacle list \<Rightarrow> nat \<Rightarrow> (Vector2 \<times> Vector2) option" where
  "edge_points obs obstacle =
     (case deref obs obstacle of
        None \<Rightarrow> None
      | Some obstacle1 \<Rightarrow>
         (case next_o obstacle1 of
            None \<Rightarrow> None
          | Some n \<Rightarrow>
             (case deref obs n of
                None \<Rightarrow> None
              | Some obstacle2 \<Rightarrow> Some (point_o obstacle1, point_o obstacle2))))"

text \<open>
  The vertices of the nodes that \<^verbatim>\<open>queryObstacleTreeRecursive\<close> reaches for an agent at \<open>p\<close>
  with the range \<open>rangeSq\<close>, in the order in which their insertion is decided.
\<close>

fun reached :: "Obstacle list \<Rightarrow> Vector2 \<Rightarrow> number \<Rightarrow> ObstacleTreeNode \<Rightarrow> nat list" where
  "reached obs p rangeSq Null = []"
| "reached obs p rangeSq (ObstacleTreeNode obstacle l r) =
     (case edge_points obs obstacle of
        None \<Rightarrow> [obstacle]
      | Some (p1, p2) \<Rightarrow>
         (let agentLeftOfLine = RVOMath_leftOf p1 p2 p;
              distSqLine = RVOMath_sqr agentLeftOfLine / RVOMath_absSq (Vector2_subtract p2 p1)
          in reached obs p rangeSq (if agentLeftOfLine \<ge> Fin 0 then l else r)
             @ [obstacle]
             @ (if distSqLine < rangeSq
                then reached obs p rangeSq (if agentLeftOfLine \<ge> Fin 0 then r else l)
                else [])))"

text \<open>The distance of the agent at \<open>p\<close> to the edge, the key of a list entry.\<close>

definition edge_distSq :: "Obstacle list \<Rightarrow> Vector2 \<Rightarrow> nat \<Rightarrow> number" where
  "edge_distSq obs p obstacle =
     (case edge_points obs obstacle of
        None \<Rightarrow> NaN
      | Some (p1, p2) \<Rightarrow> RVOMath_distSqPointLineSegment p1 p2 p)"

text \<open>The agent at \<open>p\<close> is strictly on the right of the line of the edge.\<close>

definition right_of_edge :: "Obstacle list \<Rightarrow> Vector2 \<Rightarrow> nat \<Rightarrow> bool" where
  "right_of_edge obs p obstacle =
     (case edge_points obs obstacle of
        None \<Rightarrow> False
      | Some (p1, p2) \<Rightarrow> RVOMath_leftOf p1 p2 p < Fin 0)"

text \<open>The distance of the agent at \<open>p\<close> to the line of the edge, as the query computes it.\<close>

definition edge_distSqLine :: "Obstacle list \<Rightarrow> Vector2 \<Rightarrow> nat \<Rightarrow> number" where
  "edge_distSqLine obs p obstacle =
     (case edge_points obs obstacle of
        None \<Rightarrow> NaN
      | Some (p1, p2) \<Rightarrow>
          RVOMath_sqr (RVOMath_leftOf p1 p2 p) / RVOMath_absSq (Vector2_subtract p2 p1))"

definition inserted_edge :: "Obstacle list \<Rightarrow> Vector2 \<Rightarrow> number \<Rightarrow> nat \<Rightarrow> bool" where
  "inserted_edge obs p rangeSq obstacle =
     (right_of_edge obs p obstacle \<and> edge_distSqLine obs p obstacle < rangeSq
      \<and> edge_distSq obs p obstacle < rangeSq)"

text \<open>A wall of two vertices, its tree, and an agent above it.\<close>

definition edge_sim :: Simulator where
  "edge_sim =
     (let sim = snd (addObstacle new_Simulator
                       [Vector2 (Fin 0) (Fin 0), Vector2 (Fin 1) (Fin 0)])
      in sim \<lparr> kdTree := (kdTree sim)
                 \<lparr> obstacleTree := ObstacleTreeNode 0 (ObstacleTreeNode 1 Null Null) Null \<rparr> \<rparr>)"

definition edge_agent :: Agent where
  "edge_agent = new_Agent \<lparr> position := Vector2 (Fin 0.5) (Fin 1), maxSpeed := Fin 9,
                             radius := Fin 1, timeHorizonObst := Fin 1 \<rparr>"

definition edge_result :: Agent where
  "edge_result = edge_agent \<lparr> obstacleNeighbors := [(Fin 1, 1)] \<rparr>"

text \<open>Two agents, the first of which keeps one neighbour.\<close>

definition pair_store :: "Agent list" where
  "pair_store = [new_Agent \<lparr> maxNeighbors := 1 \<rparr>,
                 new_Agent \<lparr> position := Vector2 (Fin 0) (Fin 3), id_a := 1 \<rparr>]"

section \<open>States in which a step returns\<close>




text \<open>
  The subtree at \<open>node\<close> of an agent tree covers the places from \<open>b\<close> to \<open>e\<close> of
  \<^verbatim>\<open>this.agents\<close>, which has \<open>m\<close> places, laid out as \<^verbatim>\<open>buildAgentTreeRecursive\<close> does.
\<close>

inductive agent_tree_ok :: "AgentTreeNode list \<Rightarrow> nat \<Rightarrow> nat \<Rightarrow> nat \<Rightarrow> nat \<Rightarrow> bool"
  for tree :: "AgentTreeNode list" and m :: nat where
  leaf: "node < length tree \<Longrightarrow> begin_n (tree ! node) = b \<Longrightarrow> end_n (tree ! node) = e
     \<Longrightarrow> b < e \<Longrightarrow> e \<le> m \<Longrightarrow> e - b \<le> MAX_LEAF_SIZE \<Longrightarrow> agent_tree_ok tree m node b e"
| inner: "node < length tree \<Longrightarrow> begin_n (tree ! node) = b \<Longrightarrow> end_n (tree ! node) = e
     \<Longrightarrow> MAX_LEAF_SIZE < e - b \<Longrightarrow> b < mid \<Longrightarrow> mid < e
     \<Longrightarrow> left_n (tree ! node) = node + 1 \<Longrightarrow> right_n (tree ! node) = node + 2 * (mid - b)
     \<Longrightarrow> agent_tree_ok tree m (node + 1) b mid
     \<Longrightarrow> agent_tree_ok tree m (node + 2 * (mid - b)) mid e
     \<Longrightarrow> agent_tree_ok tree m node b e"



section \<open>KdTree: building the obstacle tree\<close>

text \<open>A \<^verbatim>\<open>FloatPair\<close>. The tree builder compares pairs of counts of edges.\<close>

datatype FloatPair = FloatPair (a_p: nat) (b_p: nat)

definition FloatPair_lessThan :: "FloatPair \<Rightarrow> FloatPair \<Rightarrow> bool" where
  "FloatPair_lessThan pair1 pair2 =
     (a_p pair1 < a_p pair2 \<or> \<not> (a_p pair2 < a_p pair1) \<and> b_p pair1 < b_p pair2)"

definition FloatPair_lessThanOrEqual :: "FloatPair \<Rightarrow> FloatPair \<Rightarrow> bool" where
  "FloatPair_lessThanOrEqual pair1 pair2 =
     ((a_p pair1 = a_p pair2 \<and> b_p pair1 = b_p pair2) \<or> FloatPair_lessThan pair1 pair2)"

definition FloatPair_greaterThan :: "FloatPair \<Rightarrow> FloatPair \<Rightarrow> bool" where
  "FloatPair_greaterThan pair1 pair2 = (\<not> FloatPair_lessThanOrEqual pair1 pair2)"

definition FloatPair_greaterThanOrEqual :: "FloatPair \<Rightarrow> FloatPair \<Rightarrow> bool" where
  "FloatPair_greaterThanOrEqual pair1 pair2 = (\<not> FloatPair_lessThan pair1 pair2)"

text \<open>
  An entry of an array of obstacles is a reference to a vertex, or \<^verbatim>\<open>null\<close>. Reading the
  object behind it fails on \<^verbatim>\<open>null\<close>.
\<close>

definition deref_opt :: "'a list \<Rightarrow> nat option \<Rightarrow> 'a option" where
  "deref_opt xs r = (case r of None \<Rightarrow> None | Some i \<Rightarrow> deref xs i)"

text \<open>
  The assignment \<^verbatim>\<open>xs[i] = v\<close> to an array: past the end the array grows, the places in
  between being empty.
\<close>

definition array_set :: "'a option list \<Rightarrow> nat \<Rightarrow> 'a \<Rightarrow> 'a option list" where
  "array_set xs i v =
     (if i < length xs then xs [i := Some v]
      else xs @ replicate (i - length xs) None @ [Some v])"

text \<open>
  The inner loop of the first pass of \<^verbatim>\<open>buildObstacleTreeRecursive\<close> for the candidate
  \<open>i\<close>, over the places \<open>js\<close>: the counts \<^verbatim>\<open>leftSize\<close> and \<^verbatim>\<open>rightSize\<close>. The loop is
  left as soon as the counts are no better than \<^verbatim>\<open>minLeft\<close> and \<^verbatim>\<open>minRight\<close>.
\<close>

fun count_sides ::
  "Obstacle list \<Rightarrow> nat option list \<Rightarrow> nat \<Rightarrow> Obstacle \<Rightarrow> nat \<Rightarrow> nat \<Rightarrow> nat list
     \<Rightarrow> nat \<times> nat \<Rightarrow> (nat \<times> nat) option" where
  "count_sides obs obstacles' i obstacleI1 minLeft minRight [] (leftSize, rightSize) =
     Some (leftSize, rightSize)"
| "count_sides obs obstacles' i obstacleI1 minLeft minRight (j # js) (leftSize, rightSize) =
     (if i = j then
        count_sides obs obstacles' i obstacleI1 minLeft minRight js (leftSize, rightSize)
      else
        (case deref_opt obs (obstacles' ! j) of
           None \<Rightarrow> None
         | Some obstacleJ1 \<Rightarrow>
            (case deref_opt obs (next_o obstacleI1) of
               None \<Rightarrow> None
             | Some obstacleI2 \<Rightarrow>
                (case deref_opt obs (next_o obstacleJ1) of
                   None \<Rightarrow> None
                 | Some obstacleJ2 \<Rightarrow>
                    (let j1LeftOfI = RVOMath_leftOf (point_o obstacleI1) (point_o obstacleI2)
                                       (point_o obstacleJ1);
                         j2LeftOfI = RVOMath_leftOf (point_o obstacleI1) (point_o obstacleI2)
                                       (point_o obstacleJ2);
                         (leftSize, rightSize) =
                            (if j1LeftOfI \<ge> - RVO_EPSILON \<and> j2LeftOfI \<ge> - RVO_EPSILON
                             then (leftSize + 1, rightSize)
                             else if j1LeftOfI \<le> RVO_EPSILON \<and> j2LeftOfI \<le> RVO_EPSILON
                             then (leftSize, rightSize + 1)
                             else (leftSize + 1, rightSize + 1))
                     in if FloatPair_greaterThanOrEqual
                             (FloatPair (max leftSize rightSize) (min leftSize rightSize))
                             (FloatPair (max minLeft minRight) (min minLeft minRight))
                        then Some (leftSize, rightSize)
                        else count_sides obs obstacles' i obstacleI1 minLeft minRight js
                               (leftSize, rightSize))))))"

text \<open>
  The outer loop of the first pass, over the candidates \<open>is\<close>; the state is
  \<^verbatim>\<open>optimalSplit\<close>, \<^verbatim>\<open>minLeft\<close>, \<^verbatim>\<open>minRight\<close>.
\<close>

fun select_split ::
  "Obstacle list \<Rightarrow> nat option list \<Rightarrow> nat list \<Rightarrow> nat \<times> nat \<times> nat
     \<Rightarrow> (nat \<times> nat \<times> nat) option" where
  "select_split obs obstacles' [] (optimalSplit, minLeft, minRight) =
     Some (optimalSplit, minLeft, minRight)"
| "select_split obs obstacles' (i # is) (optimalSplit, minLeft, minRight) =
     (case deref_opt obs (obstacles' ! i) of
        None \<Rightarrow> None
      | Some obstacleI1 \<Rightarrow>
         (case count_sides obs obstacles' i obstacleI1 minLeft minRight
                 [0 ..< length obstacles'] (0, 0) of
            None \<Rightarrow> None
          | Some (leftSize, rightSize) \<Rightarrow>
             select_split obs obstacles' is
               (if FloatPair_lessThan
                     (FloatPair (max leftSize rightSize) (min leftSize rightSize))
                     (FloatPair (max minLeft minRight) (min minLeft minRight))
                then (i, leftSize, rightSize)
                else (optimalSplit, minLeft, minRight))))"

text \<open>
  The second pass: the edges other than the splitter \<open>i\<close> are put into the two arrays;
  an edge on both sides of the line is cut by a new vertex, which the simulator stores.
  The state is the simulator, the two arrays and the two counters.
\<close>

fun distribute ::
  "nat option list \<Rightarrow> nat \<Rightarrow> nat \<Rightarrow> nat option \<Rightarrow> nat list
     \<Rightarrow> Simulator \<times> nat option list \<times> nat option list \<times> nat \<times> nat
     \<Rightarrow> (Simulator \<times> nat option list \<times> nat option list \<times> nat \<times> nat) option" where
  "distribute obstacles' i I1 I2 [] st = Some st"
| "distribute obstacles' i I1 I2 (j # js)
     (sim, leftObstacles, rightObstacles, leftCounter, rightCounter) =
     (if i = j then
        distribute obstacles' i I1 I2 js
          (sim, leftObstacles, rightObstacles, leftCounter, rightCounter)
      else
        (case (obstacles' ! j, deref_opt (obstacles sim) (obstacles' ! j)) of
           (Some J1, Some obstacleJ1) \<Rightarrow>
            (case (deref (obstacles sim) I1, deref_opt (obstacles sim) I2,
                   next_o obstacleJ1, deref_opt (obstacles sim) (next_o obstacleJ1)) of
               (Some obstacleI1, Some obstacleI2, Some J2, Some obstacleJ2) \<Rightarrow>
                (let j1LeftOfI = RVOMath_leftOf (point_o obstacleI1) (point_o obstacleI2)
                                   (point_o obstacleJ1);
                     j2LeftOfI = RVOMath_leftOf (point_o obstacleI1) (point_o obstacleI2)
                                   (point_o obstacleJ2)
                 in
                 if j1LeftOfI \<ge> - RVO_EPSILON \<and> j2LeftOfI \<ge> - RVO_EPSILON then
                   distribute obstacles' i I1 I2 js
                     (sim, array_set leftObstacles leftCounter J1, rightObstacles,
                      leftCounter + 1, rightCounter)
                 else if j1LeftOfI \<le> RVO_EPSILON \<and> j2LeftOfI \<le> RVO_EPSILON then
                   distribute obstacles' i I1 I2 js
                     (sim, leftObstacles, array_set rightObstacles rightCounter J1,
                      leftCounter, rightCounter + 1)
                 else
                   (let t = RVOMath_det
                              (Vector2_subtract (point_o obstacleI2) (point_o obstacleI1))
                              (Vector2_subtract (point_o obstacleJ1) (point_o obstacleI1))
                            / RVOMath_det
                                (Vector2_subtract (point_o obstacleI2) (point_o obstacleI1))
                                (Vector2_subtract (point_o obstacleJ1) (point_o obstacleJ2));
                        splitPoint = Vector2_add (point_o obstacleJ1)
                           (Vector2_multiply
                              (Vector2_subtract (point_o obstacleJ2) (point_o obstacleJ1)) t);
                        newObstacle = new_Obstacle
                           \<lparr> point_o := splitPoint, previous_o := Some J1, next_o := Some J2,
                             convex_o := True, direction_o := direction_o obstacleJ1,
                             id_o := getNumObstacleVertices sim \<rparr>;
                        new = length (obstacles sim);
                        sim = addObstacleVertex sim newObstacle;
                        sim = sim \<lparr> obstacles := (obstacles sim)
                                [J1 := (obstacles sim ! J1) \<lparr> next_o := Some new \<rparr>] \<rparr>;
                        sim = sim \<lparr> obstacles := (obstacles sim)
                                [J2 := (obstacles sim ! J2) \<lparr> previous_o := Some new \<rparr>] \<rparr>
                    in
                    if j1LeftOfI > Fin 0 then
                      distribute obstacles' i I1 I2 js
                        (sim, array_set leftObstacles leftCounter J1,
                         array_set rightObstacles rightCounter new,
                         leftCounter + 1, rightCounter + 1)
                    else
                      distribute obstacles' i I1 I2 js
                        (sim, array_set leftObstacles leftCounter new,
                         array_set rightObstacles rightCounter J1,
                         leftCounter + 1, rightCounter + 1)))
             | _ \<Rightarrow> None)
         | _ \<Rightarrow> None))"

text \<open>
  The body of \<^verbatim>\<open>buildObstacleTreeRecursive\<close> for a list that is not empty, up to the
  recursive calls: the simulator, the vertex of the splitter and the two arrays.
\<close>

definition split_obstacles ::
  "Simulator \<Rightarrow> nat option list
     \<Rightarrow> (Simulator \<times> nat \<times> nat option list \<times> nat option list) option" where
  "split_obstacles sim obstacles' =
     (case select_split (obstacles sim) obstacles' [0 ..< length obstacles']
             (0, length obstacles', length obstacles') of
        None \<Rightarrow> None
      | Some (optimalSplit, minLeft, minRight) \<Rightarrow>
         (let leftObstacles = replicate minLeft None;
              rightObstacles = replicate minRight None;
              i = optimalSplit
          in case (obstacles' ! i, deref_opt (obstacles sim) (obstacles' ! i)) of
               (Some I1, Some obstacleI1) \<Rightarrow>
                 (case distribute obstacles' i I1 (next_o obstacleI1) [0 ..< length obstacles']
                         (sim, leftObstacles, rightObstacles, 0, 0) of
                    None \<Rightarrow> None
                  | Some (sim, leftObstacles, rightObstacles, leftCounter, rightCounter) \<Rightarrow>
                      Some (sim, I1, leftObstacles, rightObstacles))
             | _ \<Rightarrow> None))"


lemma length_array_set: "length (array_set xs i v) = max (length xs) (Suc i)"
  by (simp add: array_set_def)

lemma count_sides_le:
  "count_sides obs obstacles' i obstacleI1 minLeft minRight js (l, r) = Some (l', r') \<Longrightarrow>
     l' \<le> l + length (filter (\<lambda>j. j \<noteq> i) js) \<and> r' \<le> r + length (filter (\<lambda>j. j \<noteq> i) js)"
proof (induction js arbitrary: l r)
  case Nil
  then show ?case by simp
next
  case (Cons j js)
  show ?case
  proof (cases "i = j")
    case True
    with Cons.prems Cons.IH [of l r] show ?thesis by simp
  next
    case False
    with Cons.prems Cons.IH [of "Suc l" r] Cons.IH [of l "Suc r"] Cons.IH [of "Suc l" "Suc r"]
    show ?thesis
      by (auto simp: Let_def split: option.splits if_splits)
  qed
qed

lemma length_filter_neq_upt: "i < n \<Longrightarrow> length (filter (\<lambda>j. j \<noteq> i) [0 ..< n]) < n"
  using length_filter_less [of i "[0 ..< n]" "\<lambda>j. j \<noteq> i"] by simp

lemma select_split_le:
  assumes "select_split obs obstacles' is (k, ml, mr) = Some (k', ml', mr')"
    and "\<forall>i \<in> set is. i < length obstacles'"
  shows "(ml < length obstacles' \<and> mr < length obstacles'
            \<or> is \<noteq> [] \<and> ml = length obstacles' \<and> mr = length obstacles')
         \<longrightarrow> ml' < length obstacles' \<and> mr' < length obstacles'"
  using assms
proof (induction "is" arbitrary: k ml mr)
  case Nil
  then show ?case by simp
next
  case (Cons i "is")
  let ?n = "length obstacles'"
  from Cons.prems(2) have i: "i < ?n" by simp
  from Cons.prems(1) obtain obstacleI1 l r where
    c: "count_sides obs obstacles' i obstacleI1 ml mr [0 ..< ?n] (0, 0) = Some (l, r)"
    and s: "select_split obs obstacles' is
              (if FloatPair_lessThan (FloatPair (max l r) (min l r))
                    (FloatPair (max ml mr) (min ml mr))
               then (i, l, r) else (k, ml, mr)) = Some (k', ml', mr')"
    by (auto split: option.splits)
  from count_sides_le [OF c] length_filter_neq_upt [OF i]
  have lr: "l < ?n" "r < ?n" by simp_all
  show ?case
  proof (cases "FloatPair_lessThan (FloatPair (max l r) (min l r))
                    (FloatPair (max ml mr) (min ml mr))")
    case True
    with s have "select_split obs obstacles' is (i, l, r) = Some (k', ml', mr')" by simp
    from Cons.IH [OF this] Cons.prems(2) lr show ?thesis by simp
  next
    case False
    with s have s': "select_split obs obstacles' is (k, ml, mr) = Some (k', ml', mr')" by simp
    from False lr have "\<not> (ml = ?n \<and> mr = ?n)"
      by (auto simp: FloatPair_lessThan_def)
    with Cons.IH [OF s'] Cons.prems(2) show ?thesis by auto
  qed
qed

lemma select_split_index:
  "select_split obs obstacles' is (k, ml, mr) = Some (k', ml', mr') \<Longrightarrow> k' = k \<or> k' \<in> set is"
proof (induction "is" arbitrary: k ml mr)
  case Nil
  then show ?case by simp
next
  case (Cons i "is")
  from Cons.prems obtain st where
    "select_split obs obstacles' is st = Some (k', ml', mr')" "fst st = k \<or> fst st = i"
    by (auto split: option.splits if_splits)
  with Cons.IH [of "fst st" "fst (snd st)" "snd (snd st)"] show ?case by auto
qed

lemma distribute_length:
  "distribute obstacles' i I1 I2 js (sim, left, right, lc, rc) = Some (sim', left', right', lc', rc')
   \<Longrightarrow> length left' \<le> max (length left) (lc + length (filter (\<lambda>j. j \<noteq> i) js))
     \<and> length right' \<le> max (length right) (rc + length (filter (\<lambda>j. j \<noteq> i) js))"
proof (induction js arbitrary: sim left right lc rc)
  case Nil
  then show ?case by simp
next
  case (Cons j js)
  show ?case
  proof (cases "i = j")
    case True
    with Cons.prems Cons.IH [of sim left right lc rc] show ?thesis by simp
  next
    case False
    from Cons.prems False obtain sim1 left1 right1 lc1 rc1 where
      d: "distribute obstacles' i I1 I2 js (sim1, left1, right1, lc1, rc1)
          = Some (sim', left', right', lc', rc')"
      and b: "length left1 \<le> max (length left) (Suc lc)" "lc1 \<le> Suc lc"
        "length right1 \<le> max (length right) (Suc rc)" "rc1 \<le> Suc rc"
      by (auto simp: Let_def length_array_set split: option.splits if_splits prod.splits)
    from Cons.IH [OF d] b False show ?thesis by auto
  qed
qed

lemma split_obstacles_length:
  assumes "split_obstacles sim obstacles' = Some (sim', I1, leftObstacles, rightObstacles)"
    and "obstacles' \<noteq> []"
  shows "length leftObstacles < length obstacles' \<and> length rightObstacles < length obstacles'"
proof -
  let ?n = "length obstacles'"
  from assms(1) have "\<exists>k ml mr I2 lc rc.
      select_split (obstacles sim) obstacles' [0 ..< ?n] (0, ?n, ?n) = Some (k, ml, mr)
      \<and> distribute obstacles' k I1 I2 [0 ..< ?n]
              (sim, replicate ml None, replicate mr None, 0, 0)
            = Some (sim', leftObstacles, rightObstacles, lc, rc)"
    by (auto simp: split_obstacles_def Let_def split: option.splits prod.splits)
  then obtain k ml mr I2 lc rc where
    s: "select_split (obstacles sim) obstacles' [0 ..< ?n] (0, ?n, ?n) = Some (k, ml, mr)"
    and d: "distribute obstacles' k I1 I2 [0 ..< ?n]
              (sim, replicate ml None, replicate mr None, 0, 0)
            = Some (sim', leftObstacles, rightObstacles, lc, rc)"
    by blast
  from assms(2) have "[0 ..< ?n] \<noteq> []" by simp
  with select_split_le [OF s] have m: "ml < ?n" "mr < ?n" by simp_all
  from select_split_index [OF s] assms(2) have "k < ?n" by auto
  from length_filter_neq_upt [OF this] distribute_length [OF d] m
  show ?thesis by auto
qed


text \<open>
  \<^verbatim>\<open>buildObstacleTreeRecursive(obstacles)\<close>: the simulator with the new vertices, and the
  tree. The right subtree is built after the left one, on the vertices as the left
  call left them.
\<close>

function buildObstacleTreeRecursive ::
  "Simulator \<Rightarrow> nat option list \<Rightarrow> (Simulator \<times> ObstacleTreeNode) option" where
  "buildObstacleTreeRecursive sim obstacles' =
     (if length obstacles' = 0 then Some (sim, Null)
      else
        (case split_obstacles sim obstacles' of
           None \<Rightarrow> None
         | Some (sim, obstacleI1, leftObstacles, rightObstacles) \<Rightarrow>
            (case buildObstacleTreeRecursive sim leftObstacles of
               None \<Rightarrow> None
             | Some (sim, left) \<Rightarrow>
                (case buildObstacleTreeRecursive sim rightObstacles of
                   None \<Rightarrow> None
                 | Some (sim, right) \<Rightarrow>
                     Some (sim, ObstacleTreeNode obstacleI1 left right)))))"
  by pat_completeness auto

termination
proof (relation "measure (\<lambda>(sim, obstacles'). length obstacles')")
  show "wf (measure (\<lambda>(sim, obstacles'). length obstacles'))" by simp
next
  fix sim obstacles' x2 sim1 y obstacleI1 ya leftObstacles rightObstacles
  assume "length obstacles' \<noteq> 0" "split_obstacles sim obstacles' = Some x2"
    "(sim1, y) = x2" "(obstacleI1, ya) = y" "(leftObstacles, rightObstacles) = ya"
  then show "((sim1, leftObstacles), (sim, obstacles')) \<in> measure (\<lambda>(sim, obstacles'). length obstacles')"
    using split_obstacles_length [of sim obstacles' sim1 obstacleI1 leftObstacles rightObstacles]
    by auto
next
  fix sim obstacles' x2 sim1 y obstacleI1 ya leftObstacles rightObstacles x2a sim2 left
  assume "length obstacles' \<noteq> 0" "split_obstacles sim obstacles' = Some x2"
    "(sim1, y) = x2" "(obstacleI1, ya) = y" "(leftObstacles, rightObstacles) = ya"
  then show "((sim2, rightObstacles), (sim, obstacles')) \<in> measure (\<lambda>(sim, obstacles'). length obstacles')"
    using split_obstacles_length [of sim obstacles' sim1 obstacleI1 leftObstacles rightObstacles]
    by auto
qed

declare buildObstacleTreeRecursive.simps [simp del]

text \<open>\<^verbatim>\<open>buildObstacleTree()\<close> and the simulator's \<^verbatim>\<open>processObstacles()\<close>.\<close>

definition buildObstacleTree :: "Simulator \<Rightarrow> Simulator option" where
  "buildObstacleTree sim =
     (let obstacles' = map Some [0 ..< getNumObstacleVertices sim] in
      case buildObstacleTreeRecursive sim obstacles' of
        None \<Rightarrow> None
      | Some (sim, tree) \<Rightarrow> Some (sim \<lparr> kdTree := (kdTree sim) \<lparr> obstacleTree := tree \<rparr> \<rparr>))"

definition processObstacles :: "Simulator \<Rightarrow> Simulator option" where
  "processObstacles sim = buildObstacleTree sim"

section \<open>The splitter of the obstacle tree\<close>

text \<open>
  How the tree builder classifies the edge at place \<open>j\<close> against the line of the edge
  at place \<open>i\<close>; \<open>None\<close> where a vertex or its successor is missing.
\<close>

datatype Side = OnLeft | OnRight | Straddling

definition classify :: "Obstacle list \<Rightarrow> nat option list \<Rightarrow> nat \<Rightarrow> nat \<Rightarrow> Side option" where
  "classify obs obstacles' i j =
     (case deref_opt obs (obstacles' ! i) of
        None \<Rightarrow> None
      | Some obstacleI1 \<Rightarrow>
         (case deref_opt obs (next_o obstacleI1) of
            None \<Rightarrow> None
          | Some obstacleI2 \<Rightarrow>
             (case deref_opt obs (obstacles' ! j) of
                None \<Rightarrow> None
              | Some obstacleJ1 \<Rightarrow>
                 (case deref_opt obs (next_o obstacleJ1) of
                    None \<Rightarrow> None
                  | Some obstacleJ2 \<Rightarrow>
                     (let j1LeftOfI = RVOMath_leftOf (point_o obstacleI1) (point_o obstacleI2)
                                        (point_o obstacleJ1);
                          j2LeftOfI = RVOMath_leftOf (point_o obstacleI1) (point_o obstacleI2)
                                        (point_o obstacleJ2)
                      in Some (if j1LeftOfI \<ge> - RVO_EPSILON \<and> j2LeftOfI \<ge> - RVO_EPSILON
                               then OnLeft
                               else if j1LeftOfI \<le> RVO_EPSILON \<and> j2LeftOfI \<le> RVO_EPSILON
                               then OnRight
                               else Straddling))))))"

text \<open>
  The counts \<open>L\<^sub>i\<close> and \<open>R\<^sub>i\<close> of the other edges on the left and on the right of the line
  of the edge at place \<open>i\<close>, an edge on both sides counting twice, and the pair by which
  the candidates are compared.
\<close>

definition counts_left :: "Obstacle list \<Rightarrow> nat option list \<Rightarrow> nat \<Rightarrow> nat \<Rightarrow> bool" where
  "counts_left obs obstacles' i j =
     (j \<noteq> i \<and> (classify obs obstacles' i j = Some OnLeft
                \<or> classify obs obstacles' i j = Some Straddling))"

definition counts_right :: "Obstacle list \<Rightarrow> nat option list \<Rightarrow> nat \<Rightarrow> nat \<Rightarrow> bool" where
  "counts_right obs obstacles' i j =
     (j \<noteq> i \<and> (classify obs obstacles' i j = Some OnRight
                \<or> classify obs obstacles' i j = Some Straddling))"

definition L_count :: "Obstacle list \<Rightarrow> nat option list \<Rightarrow> nat \<Rightarrow> nat" where
  "L_count obs obstacles' i =
     length (filter (counts_left obs obstacles' i) [0 ..< length obstacles'])"

definition R_count :: "Obstacle list \<Rightarrow> nat option list \<Rightarrow> nat \<Rightarrow> nat" where
  "R_count obs obstacles' i =
     length (filter (counts_right obs obstacles' i) [0 ..< length obstacles'])"

definition split_pair :: "Obstacle list \<Rightarrow> nat option list \<Rightarrow> nat \<Rightarrow> FloatPair" where
  "split_pair obs obstacles' i =
     FloatPair (max (L_count obs obstacles' i) (R_count obs obstacles' i))
               (min (L_count obs obstacles' i) (R_count obs obstacles' i))"

text \<open>
  The choice of the splitter with every candidate counted in full: the first pass
  without the early exit of its inner loop.
\<close>

definition select_full :: "Obstacle list \<Rightarrow> nat option list \<Rightarrow> nat" where
  "select_full obs obstacles' =
     fst (fold (\<lambda>i (optimalSplit, best).
                  if FloatPair_lessThan (split_pair obs obstacles' i) best
                  then (i, split_pair obs obstacles' i) else (optimalSplit, best))
            [0 ..< length obstacles']
            (0, FloatPair (length obstacles') (length obstacles')))"

definition walls_sim :: Simulator where
  "walls_sim =
     snd (addObstacle (snd (addObstacle (snd (addObstacle new_Simulator
       [Vector2 (Fin 0) (Fin 0), Vector2 (Fin 1) (Fin 0)]))
       [Vector2 (Fin 0) (Fin 1), Vector2 (Fin 1) (Fin 1)]))
       [Vector2 (Fin 0) (Fin 2), Vector2 (Fin 1) (Fin 2)])"

definition wall_vertex :: "nat \<Rightarrow> nat \<Rightarrow> real \<Rightarrow> real \<Rightarrow> real \<Rightarrow> Obstacle" where
  "wall_vertex i other x y dx =
     \<lparr> next_o = Some other, previous_o = Some other, direction_o = Vector2 (Fin dx) (Fin 0),
       point_o = Vector2 (Fin x) (Fin y), id_o = i, convex_o = True \<rparr>"

definition walls_vertices :: "Obstacle list" where
  "walls_vertices =
     [wall_vertex 0 1 0 0 1, wall_vertex 1 0 1 0 (- 1),
      wall_vertex 2 3 0 1 1, wall_vertex 3 2 1 1 (- 1),
      wall_vertex 4 5 0 2 1, wall_vertex 5 4 1 2 (- 1)]"

definition walls_tree :: ObstacleTreeNode where
  "walls_tree =
     ObstacleTreeNode 2
       (ObstacleTreeNode 4 (ObstacleTreeNode 5 Null Null) (ObstacleTreeNode 3 Null Null))
       (ObstacleTreeNode 0 (ObstacleTreeNode 1 Null Null) Null)"

section \<open>Properties of the simulator interface\<close>

lemma ids_stable_iff:
  "ids_stable sim \<longleftrightarrow> (\<forall>k < length (agents sim). id_a (agents sim ! k) = k)"
proof
  assume h: "ids_stable sim"
  show "\<forall>k < length (agents sim). id_a (agents sim ! k) = k"
  proof (intro allI impI)
    fix k assume k: "k < length (agents sim)"
    have "id_a (agents sim ! k) = map id_a (agents sim) ! k" using k by simp
    also have "\<dots> = [0 ..< length (agents sim)] ! k" using h by (simp only: ids_stable_def)
    also have "\<dots> = k" using k by simp
    finally show "id_a (agents sim ! k) = k" .
  qed
next
  assume h: "\<forall>k < length (agents sim). id_a (agents sim ! k) = k"
  show "ids_stable sim"
    unfolding ids_stable_def
    by (rule nth_equalityI) (use h in simp_all)
qed

text \<open>
  Claim C10. The \<^verbatim>\<open>normalize\<close> method of \<^verbatim>\<open>Vector2\<close>, also through the static wrapper,
  maps the zero vector to \<open>(0, 0)\<close>: the division is guarded by the test
  \<^verbatim>\<open>len > 0\<close>. \<^verbatim>\<open>RVOMath.normalize\<close> divides the zero vector by its length zero, and
  both components of its result are NaN.
\<close>

theorem normalize_zero_vector:
  "Vector2_normalize (Vector2 (Fin 0) (Fin 0)) = Vector2 (Fin 0) (Fin 0)
   \<and> Vector2_normalize_static (Vector2 (Fin 0) (Fin 0)) = Vector2 (Fin 0) (Fin 0)
   \<and> RVOMath_normalize (Vector2 (Fin 0) (Fin 0)) = Vector2 NaN NaN"
  by (simp add: Vector2_normalize_def Vector2_normalize_static_def Vector2_length_def
      RVOMath_normalize_def RVOMath_abs_def RVOMath_absSq_def RVOMath_sqrt_def Vector2_dot_def
      Vector2_divide_def Let_def)

text \<open>
  Claim C3. \<^verbatim>\<open>addAgent\<close> without agent defaults returns \<open>-1\<close> and \<^verbatim>\<open>addObstacle\<close>
  with fewer than two vertices returns \<open>-1\<close>; in both cases the simulator is returned
  as it was, so no agent or vertex is appended and no other field changes.
\<close>

theorem add_sentinels:
  "(defaultAgent sim = None \<longrightarrow> addAgent sim pos = (- 1, sim))
   \<and> (length vertices < 2 \<longrightarrow> addObstacle sim vertices = (- 1, sim))"
  by (simp add: addAgent_def addObstacle_def)

theorem add_sentinels_witness:
  "defaultAgent new_Simulator = None
   \<and> addAgent new_Simulator (Vector2 (Fin 1) (Fin 2)) = (- 1, new_Simulator)
   \<and> length [Vector2 (Fin 1) (Fin 2)] < 2
   \<and> addObstacle new_Simulator [Vector2 (Fin 1) (Fin 2)] = (- 1, new_Simulator)"
  using add_sentinels [of new_Simulator "Vector2 (Fin 1) (Fin 2)" "[Vector2 (Fin 1) (Fin 2)]"]
  by (simp add: new_Simulator_def clear_def)

lemma addAgent_appends:
  "defaultAgent sim \<noteq> None \<Longrightarrow>
   \<exists>a. addAgent sim pos = (int (length (agents sim)), sim \<lparr> agents := agents sim @ [a] \<rparr>)
       \<and> id_a a = length (agents sim)"
  by (auto simp: addAgent_def Let_def)

lemma addAgentWithParams_appends:
  "\<exists>a. addAgentWithParams sim pos nd mn th tho r ms v
          = (int (length (agents sim)), sim \<lparr> agents := agents sim @ [a] \<rparr>)
       \<and> id_a a = length (agents sim)"
  by (simp add: addAgentWithParams_def Let_def, intro exI conjI, rule refl, simp)

lemma add_call_agents:
  "agents (add_call c sim) = agents sim
   \<or> (\<exists>a. agents (add_call c sim) = agents sim @ [a] \<and> id_a a = length (agents sim))"
proof (cases c)
  case (AddAgent pos)
  show ?thesis
  proof (cases "defaultAgent sim")
    case None
    then show ?thesis using AddAgent by (simp add: addAgent_def)
  next
    case (Some d)
    then obtain a where
      "addAgent sim pos = (int (length (agents sim)), sim \<lparr> agents := agents sim @ [a] \<rparr>)"
      "id_a a = length (agents sim)"
      using addAgent_appends [of sim pos] by auto
    then show ?thesis using AddAgent by simp
  qed
next
  case (AddAgentWithParams pos nd mn th tho r ms v)
  obtain a where
    "addAgentWithParams sim pos nd mn th tho r ms v
       = (int (length (agents sim)), sim \<lparr> agents := agents sim @ [a] \<rparr>)"
    "id_a a = length (agents sim)"
    using addAgentWithParams_appends [of sim pos nd mn th tho r ms v] by auto
  then show ?thesis using AddAgentWithParams by simp
qed

lemma add_call_ids_stable: "ids_stable sim \<Longrightarrow> ids_stable (add_call c sim)"
  using add_call_agents [of c sim] by (auto simp: ids_stable_def)

lemma add_call_prefix: "take (length (agents sim)) (agents (add_call c sim)) = agents sim"
  using add_call_agents [of c sim] by auto

lemma add_call_length: "length (agents sim) \<le> length (agents (add_call c sim))"
  using add_call_agents [of c sim] by auto

lemma fold_add_call_ids_stable: "ids_stable sim \<Longrightarrow> ids_stable (fold add_call calls sim)"
  by (induction calls arbitrary: sim) (auto intro: add_call_ids_stable)

lemma fold_add_call_prefix:
  "take (length (agents sim)) (agents (fold add_call calls sim)) = agents sim"
proof (induction calls arbitrary: sim)
  case Nil
  then show ?case by simp
next
  case (Cons c calls)
  have "take (length (agents sim)) (agents (fold add_call calls (add_call c sim)))
        = take (length (agents sim)) (take (length (agents (add_call c sim)))
              (agents (fold add_call calls (add_call c sim))))"
    using add_call_length [of sim c] by (simp add: min_def)
  also have "\<dots> = take (length (agents sim)) (agents (add_call c sim))"
    by (simp only: Cons.IH)
  also have "\<dots> = agents sim" by (rule add_call_prefix)
  finally show ?case by simp
qed

text \<open>
  Claim C6. If the agent at every index \<open>k\<close> has the identifier \<open>k\<close>, then after any
  sequence of calls of \<^verbatim>\<open>addAgent\<close> and \<^verbatim>\<open>addAgentWithParams\<close> this still holds and the
  agents that were there are still at their places. \<^verbatim>\<open>addAgentWithParams\<close>, and
  \<^verbatim>\<open>addAgent\<close> once the defaults are set, return the length of the list and append one
  agent whose identifier is that length.
\<close>

theorem id_stability:
  "(\<forall>k < length (agents sim). id_a (agents sim ! k) = k) \<longrightarrow>
     (\<forall>k < length (agents (fold add_call calls sim)).
         id_a (agents (fold add_call calls sim) ! k) = k)
     \<and> take (length (agents sim)) (agents (fold add_call calls sim)) = agents sim
     \<and> (\<exists>a. addAgentWithParams sim pos nd mn th tho r ms v
                = (int (length (agents sim)), sim \<lparr> agents := agents sim @ [a] \<rparr>)
             \<and> id_a a = length (agents sim))
     \<and> (defaultAgent sim \<noteq> None \<longrightarrow>
          (\<exists>a. addAgent sim pos
                  = (int (length (agents sim)), sim \<lparr> agents := agents sim @ [a] \<rparr>)
               \<and> id_a a = length (agents sim)))"
  using fold_add_call_ids_stable [of sim calls] fold_add_call_prefix [of sim calls]
    addAgentWithParams_appends [of sim pos nd mn th tho r ms v] addAgent_appends [of sim pos]
  by (simp add: ids_stable_iff)

theorem id_stability_witness:
  "ids_stable (setAgentDefaults new_Simulator (Fin 15) 10 (Fin 10) (Fin 10) (Fin 2)
        (Fin 2) (Vector2 (Fin 0) (Fin 0)))
   \<and> defaultAgent (setAgentDefaults new_Simulator (Fin 15) 10 (Fin 10) (Fin 10) (Fin 2)
        (Fin 2) (Vector2 (Fin 0) (Fin 0))) \<noteq> None
   \<and> map id_a (agents (fold add_call
        [AddAgent (Vector2 (Fin 0) (Fin 0)),
         AddAgentWithParams (Vector2 (Fin 10) (Fin 0)) (Fin 15) 10 (Fin 10) (Fin 10) (Fin 2)
           (Fin 2) (Vector2 (Fin 0) (Fin 0)),
         AddAgent (Vector2 (Fin 5) (Fin 5))]
        (setAgentDefaults new_Simulator (Fin 15) 10 (Fin 10) (Fin 10) (Fin 2)
           (Fin 2) (Vector2 (Fin 0) (Fin 0))))) = [0, 1, 2]"
  using id_stability [of "setAgentDefaults new_Simulator (Fin 15) 10 (Fin 10) (Fin 10) (Fin 2)
        (Fin 2) (Vector2 (Fin 0) (Fin 0))"
      "[AddAgent (Vector2 (Fin 0) (Fin 0)),
         AddAgentWithParams (Vector2 (Fin 10) (Fin 0)) (Fin 15) 10 (Fin 10) (Fin 10) (Fin 2)
           (Fin 2) (Vector2 (Fin 0) (Fin 0)),
         AddAgent (Vector2 (Fin 5) (Fin 5))]"]
  by (simp add: new_Simulator_def clear_def setAgentDefaults_def addAgent_def
      addAgentWithParams_def new_Agent_def Let_def ids_stable_def)

text \<open>
  Claim C9. \<^verbatim>\<open>clear()\<close> empties the agent list and the obstacle list, drops the default
  agent, installs a fresh k-D tree, sets the global time to \<open>0.0\<close> and the time step to
  \<open>0.1\<close>, also when another time step had been set with \<^verbatim>\<open>setTimeStep\<close>; the result
  is the state of a newly constructed simulator.
\<close>

theorem clear_resets:
  "agents (clear sim) = [] \<and> obstacles (clear sim) = [] \<and> defaultAgent (clear sim) = None
   \<and> kdTree (clear sim) = new_KdTree \<and> globalTime (clear sim) = Fin 0
   \<and> timeStep (clear sim) = Fin 0.1
   \<and> timeStep (clear (setTimeStep sim t)) = Fin 0.1
   \<and> clear sim = new_Simulator"
  by (simp add: clear_def setTimeStep_def new_Simulator_def)


lemma core_fields:
  "core a = core b \<Longrightarrow>
     position a = position b \<and> velocity a = velocity b \<and> prefVelocity a = prefVelocity b
     \<and> radius a = radius b \<and> maxSpeed a = maxSpeed b \<and> maxNeighbors a = maxNeighbors b
     \<and> neighborDist a = neighborDist b \<and> timeHorizon a = timeHorizon b
     \<and> timeHorizonObst a = timeHorizonObst b \<and> id_a a = id_a b"
proof -
  assume h: "core a = core b"
  have "position (core a) = position (core b)" "velocity (core a) = velocity (core b)"
    "prefVelocity (core a) = prefVelocity (core b)" "radius (core a) = radius (core b)"
    "maxSpeed (core a) = maxSpeed (core b)" "maxNeighbors (core a) = maxNeighbors (core b)"
    "neighborDist (core a) = neighborDist (core b)" "timeHorizon (core a) = timeHorizon (core b)"
    "timeHorizonObst (core a) = timeHorizonObst (core b)" "id_a (core a) = id_a (core b)"
    using h by simp_all
  then show ?thesis by (simp add: core_def)
qed

lemma core_update [simp]:
  "core (a \<lparr> agentNeighbors := xs \<rparr>) = core a"
  "core (a \<lparr> obstacleNeighbors := ys \<rparr>) = core a"
  "core (a \<lparr> orcaLines := ls \<rparr>) = core a"
  "core (a \<lparr> newVelocity := v \<rparr>) = core a"
  by (simp_all add: core_def)

lemma insertAgentNeighbor_frame:
  "insertAgentNeighbor store self this agent rangeSq = Some (this', rangeSq') \<Longrightarrow>
     core this' = core this \<and> obstacleNeighbors this' = obstacleNeighbors this
     \<and> orcaLines this' = orcaLines this \<and> newVelocity this' = newVelocity this"
  by (auto simp: insertAgentNeighbor_def Let_def split: if_splits option.splits prod.splits)

lemma insertObstacleNeighbor_frame:
  "insertObstacleNeighbor obs this obstacle rangeSq = Some this' \<Longrightarrow>
     core this' = core this \<and> agentNeighbors this' = agentNeighbors this
     \<and> orcaLines this' = orcaLines this \<and> newVelocity this' = newVelocity this"
  by (auto simp: insertObstacleNeighbor_def Let_def split: if_splits option.splits prod.splits)

lemma queryObstacleTreeRecursive_frame:
  "queryObstacleTreeRecursive obs agent rangeSq node = Some agent' \<Longrightarrow>
     core agent' = core agent \<and> agentNeighbors agent' = agentNeighbors agent
     \<and> orcaLines agent' = orcaLines agent \<and> newVelocity agent' = newVelocity agent"
proof (induction node arbitrary: agent agent')
  case Null
  then show ?case by simp
next
  case (ObstacleTreeNode obstacle l r)
  let ?P = "\<lambda>a b. core b = core a \<and> agentNeighbors b = agentNeighbors a
     \<and> orcaLines b = orcaLines a \<and> newVelocity b = newVelocity a"
  have l: "\<And>a b. queryObstacleTreeRecursive obs a rangeSq l = Some b \<Longrightarrow> ?P a b"
    using ObstacleTreeNode.IH(1) by blast
  have r: "\<And>a b. queryObstacleTreeRecursive obs a rangeSq r = Some b \<Longrightarrow> ?P a b"
    using ObstacleTreeNode.IH(2) by blast
  have i: "\<And>a b. insertObstacleNeighbor obs a obstacle rangeSq = Some b \<Longrightarrow> ?P a b"
    using insertObstacleNeighbor_frame by blast
  from ObstacleTreeNode.prems show ?case
    by (auto simp: Let_def split: option.splits if_splits dest!: l r i)
qed

lemma queryAgentTree_leaf_invariant:
  assumes step: "\<And>a r other a' r'.
     I a \<Longrightarrow> insertAgentNeighbor store self a other r = Some (a', r') \<Longrightarrow> I a'"
  shows "queryAgentTree_leaf store kd_agents self is (a, r) = Some (a', r') \<Longrightarrow> I a \<Longrightarrow> I a'"
proof (induction "is" arbitrary: a r)
  case Nil
  then show ?case by simp
next
  case (Cons i "is")
  from Cons.prems(1) obtain other a1 r1 where
    ins: "insertAgentNeighbor store self a other r = Some (a1, r1)"
    and rest: "queryAgentTree_leaf store kd_agents self is (a1, r1) = Some (a', r')"
    by (auto split: option.splits)
  from step [OF Cons.prems(2) ins] have "I a1" .
  from Cons.IH [OF rest this] show ?case .
qed

lemma queryAgentTreeRecursive_invariant:
  assumes step: "\<And>a r other a' r'.
     I a \<Longrightarrow> insertAgentNeighbor store self a other r = Some (a', r') \<Longrightarrow> I a'"
    and q: "queryAgentTreeRecursive store kd self agent rangeSq node = Some (agent', rangeSq')"
    and i: "I agent"
  shows "I agent'"
proof -
  have "store = store \<longrightarrow> self = self \<longrightarrow> I agent \<longrightarrow> I (fst (agent', rangeSq'))"
  proof (rule queryAgentTreeRecursive.raw_induct
      [where P = "\<lambda>s k sf a r n y. s = store \<longrightarrow> sf = self \<longrightarrow> I a \<longrightarrow> I (fst y)", OF _ q],
      goal_cases)
    case (1 f s k sf a r n y)
    show ?case
    proof (intro impI)
      assume eq: "s = store" "sf = self" and ia: "I a"
      have ih: "\<And>k a r n y. f store k self a r n = Some y \<Longrightarrow> I a \<Longrightarrow> I (fst y)"
        using 1(1) by blast
      have leaf: "I (fst y)"
        if l: "queryAgentTree_leaf store (agents_kd k) self is (a, r) = Some y" and a: "I a"
        for "is" a r y
      proof (cases y)
        case (Pair a' r')
        have "I a'"
        proof (rule queryAgentTree_leaf_invariant [where I = I and store = store and self = self])
          show "I a' " if "I a" "insertAgentNeighbor store self a other r = Some (a', r')"
            for a r other a' r' using that by (rule step)
          show "queryAgentTree_leaf store (agents_kd k) self is (a, r) = Some (a', r')"
            using l Pair by simp
          show "I a" by (rule a)
        qed
        then show ?thesis using Pair by simp
      qed
      from 1(2) eq ia show "I (fst y)"
        by (auto simp: Let_def bind_eq_Some_conv split: option.splits if_splits
            dest: ih leaf) (metis ih fst_conv)+
    qed
  qed
  with i show ?thesis by simp
qed

lemma number_le_trans: "a \<le> b \<Longrightarrow> b \<le> c \<Longrightarrow> a \<le> (c :: number)"
  by (cases a; cases b; cases c; simp)

lemma number_less_imp_le: "a < b \<Longrightarrow> a \<le> (b :: number)"
  by (cases a; cases b; simp)

lemma number_not_less_le: "a \<noteq> NaN \<Longrightarrow> b \<noteq> NaN \<Longrightarrow> \<not> a < b \<Longrightarrow> b \<le> (a :: number)"
  by (cases a; cases b; simp)

lemma number_less_not_NaN: "a < b \<Longrightarrow> a \<noteq> NaN \<and> b \<noteq> (NaN :: number)"
  by (cases a; cases b; simp)

lemma number_le_refl: "a \<noteq> NaN \<Longrightarrow> a \<le> (a :: number)"
  by (cases a; simp)

lemma shift_up_result:
  "n < length xs \<Longrightarrow> shift_up xs d n = (xs', i) \<Longrightarrow>
     i \<le> n
     \<and> xs' [i := e] = take i xs @ e # drop i (take n xs) @ drop (Suc n) xs
     \<and> (\<forall>p \<in> set (drop i (take n xs)). d < fst p)
     \<and> (0 < i \<longrightarrow> \<not> d < fst (xs ! (i - 1)))"
proof (induction n arbitrary: xs xs')
  case 0
  then show ?case by (cases xs) auto
next
  case (Suc m)
  show ?case
  proof (cases "d < fst (xs ! m)")
    case False
    with Suc.prems have "xs' = xs" "i = Suc m" by auto
    with Suc.prems(1) False show ?thesis
      by (simp add: upd_conv_take_nth_drop)
  next
    case True
    let ?xs1 = "xs [Suc m := xs ! m]"
    from True Suc.prems have s: "shift_up ?xs1 d m = (xs', i)" by simp
    have m: "m < length ?xs1" using Suc.prems(1) by simp
    from Suc.IH [OF m s] have ih:
      "i \<le> m"
      "xs' [i := e] = take i ?xs1 @ e # drop i (take m ?xs1) @ drop (Suc m) ?xs1"
      "\<forall>p \<in> set (drop i (take m ?xs1)). d < fst p"
      "0 < i \<longrightarrow> \<not> d < fst (?xs1 ! (i - 1))"
      by auto
    have t1: "take i ?xs1 = take i xs" using ih(1) by simp
    have t2: "take m ?xs1 = take m xs" by simp
    have t3: "drop (Suc m) ?xs1 = xs ! m # drop (Suc (Suc m)) xs"
      using Suc.prems(1) by (simp add: drop_update_swap Cons_nth_drop_Suc [symmetric]
          upd_conv_take_nth_drop)
    have t4: "take (Suc m) xs = take m xs @ [xs ! m]"
      using Suc.prems(1) by (simp add: take_Suc_conv_app_nth)
    have t5: "drop i (take (Suc m) xs) = drop i (take m xs) @ [xs ! m]"
      using ih(1) Suc.prems(1) by (simp add: t4)
    have "xs' [i := e] = take i xs @ e # drop i (take (Suc m) xs) @ drop (Suc (Suc m)) xs"
      using ih(2) by (simp add: t1 t2 t3 t5)
    moreover have "\<forall>p \<in> set (drop i (take (Suc m) xs)). d < fst p"
      using ih(3) True by (simp add: t2 t5)
    moreover have "0 < i \<longrightarrow> \<not> d < fst (xs ! (i - 1))"
      using ih(4) ih(1) by auto
    ultimately show ?thesis using ih(1) by simp
  qed
qed

lemma insert_keeps_sorted:
  assumes s: "sorted_wrt (\<lambda>p q. fst p \<le> fst q) ys"
    and n: "\<forall>p \<in> set ys. fst p \<noteq> NaN" "d \<noteq> NaN"
    and hi: "\<forall>p \<in> set (drop i ys). d < fst p"
    and lo: "0 < i \<longrightarrow> \<not> d < fst (ys ! (i - 1))"
    and i: "i \<le> length ys"
  shows "sorted_wrt (\<lambda>p q. fst p \<le> fst q) (take i ys @ (d, v) # drop i ys)"
proof -
  have low: "fst x \<le> d" if x: "x \<in> set (take i ys)" for x
  proof -
    from x obtain j where j: "j < i" "j < length ys" "x = ys ! j"
      by (auto simp: in_set_conv_nth)
    have last: "fst (ys ! (i - 1)) \<le> d"
      using lo j(1) n i by (intro number_not_less_le) (auto simp: Suc_le_eq)
    have "fst (ys ! j) \<le> fst (ys ! (i - 1))"
    proof (cases "j = i - 1")
      case True
      then show ?thesis using n(1) j(2) by (auto intro: number_le_refl)
    next
      case False
      then have "j < i - 1" "i - 1 < length ys" using j(1) i by auto
      with s show ?thesis by (auto simp: sorted_wrt_iff_nth_less)
    qed
    with last j(3) show ?thesis by (auto intro: number_le_trans)
  qed
  have cross: "\<forall>x \<in> set (take i ys). \<forall>y \<in> set (drop i ys). fst x \<le> fst y"
    using low hi by (blast intro: number_le_trans number_less_imp_le)
  have "sorted_wrt (\<lambda>p q. fst p \<le> fst q) (take i ys)"
    "sorted_wrt (\<lambda>p q. fst p \<le> fst q) (drop i ys)"
    using s by (auto intro: sorted_wrt_take sorted_wrt_drop)
  with hi low cross show ?thesis
    by (auto simp: sorted_wrt_append intro: number_less_imp_le)
qed

lemma insertAgentNeighbor_ok:
  assumes ok: "neighbours_ok store self a"
    and ins: "insertAgentNeighbor store self a other r = Some (a', r')"
  shows "neighbours_ok store self a'"
proof (cases "self \<noteq> other \<and> other < length store
    \<and> RVOMath_absSq (Vector2_subtract (position a) (position (store ! other))) < r")
  case False
  with ins have "a' = a"
    by (auto simp: insertAgentNeighbor_def deref_def Let_def split: if_splits)
  with ok show ?thesis by simp
next
  case True
  define d where "d = RVOMath_absSq (Vector2_subtract (position a) (position (store ! other)))"
  define xs0 where "xs0 = (if int (length (agentNeighbors a)) < maxNeighbors a
       then agentNeighbors a @ [(d, other)] else agentNeighbors a)"
  define ys where "ys = butlast xs0"
  from True have dr: "d < r" and so: "self \<noteq> other" "other < length store" by (auto simp: d_def)
  from dr have dn: "d \<noteq> NaN" by (auto dest: number_less_not_NaN)
  from ins True have ne: "xs0 \<noteq> []"
    by (auto simp: insertAgentNeighbor_def deref_def Let_def xs0_def d_def split: if_splits)
  obtain xs1 i where sh: "shift_up xs0 d (length xs0 - 1) = (xs1, i)" by fastforce
  from ins True ne sh have a': "a' = a \<lparr> agentNeighbors := xs1 [i := (d, other)] \<rparr>"
    by (auto simp: insertAgentNeighbor_def deref_def Let_def xs0_def d_def split: if_splits)
  have n: "length xs0 - 1 < length xs0" using ne by simp
  from shift_up_result [OF n sh, of "(d, other)"] have r:
    "i \<le> length xs0 - 1"
    "xs1 [i := (d, other)] = take i xs0 @ (d, other) # drop i (take (length xs0 - 1) xs0)"
    "\<forall>p \<in> set (drop i (take (length xs0 - 1) xs0)). d < fst p"
    "0 < i \<longrightarrow> \<not> d < fst (xs0 ! (i - 1))"
    using ne by auto
  have ys: "take (length xs0 - 1) xs0 = ys" by (simp add: ys_def butlast_conv_take)
  have iy: "i \<le> length ys" using r(1) by (simp add: ys_def)
  have ty: "take i xs0 = take i ys" using r(1) by (simp add: ys_def butlast_conv_take min_def)
  have res: "xs1 [i := (d, other)] = take i ys @ (d, other) # drop i ys"
    using r(2) unfolding ys ty .
  have sub: "set ys \<subseteq> set (agentNeighbors a)"
    by (auto simp: ys_def xs0_def dest: in_set_butlastD)
  have ysorted: "sorted_wrt (\<lambda>p q. fst p \<le> fst q) ys"
  proof -
    have "ys = agentNeighbors a \<or> ys = butlast (agentNeighbors a)"
      by (simp add: ys_def xs0_def)
    moreover have "sorted_wrt (\<lambda>p q. fst p \<le> fst q) (butlast (agentNeighbors a))"
      using ok by (auto simp: neighbours_ok_def butlast_conv_take
          intro: sorted_wrt_take)
    ultimately show ?thesis using ok by (auto simp: neighbours_ok_def)
  qed
  have ynan: "\<forall>p \<in> set ys. fst p \<noteq> NaN" using sub ok by (auto simp: neighbours_ok_def)
  have lo: "0 < i \<longrightarrow> \<not> d < fst (ys ! (i - 1))"
  proof
    assume "0 < i"
    then have "xs0 ! (i - 1) = ys ! (i - 1)" using r(1) iy
      by (simp add: ys_def nth_butlast)
    with r(4) \<open>0 < i\<close> show "\<not> d < fst (ys ! (i - 1))" by simp
  qed
  have hi: "\<forall>p \<in> set (drop i ys). d < fst p" using r(3) unfolding ys .
  have sorted: "sorted_wrt (\<lambda>p q. fst p \<le> fst q) (take i ys @ (d, other) # drop i ys)"
    using ysorted ynan dn hi lo iy by (rule insert_keeps_sorted)
  have len: "int (length (take i ys @ (d, other) # drop i ys)) \<le> maxNeighbors a"
  proof -
    have "Suc (length ys) = length xs0" using ne by (cases xs0 rule: rev_cases) (auto simp: ys_def)
    moreover have "length (take i ys @ (d, other) # drop i ys) = Suc (length ys)"
      using iy by simp
    ultimately have "length (take i ys @ (d, other) # drop i ys) = length xs0" by simp
    moreover have "int (length xs0) \<le> maxNeighbors a"
      using ok by (auto simp: xs0_def neighbours_ok_def)
    ultimately show ?thesis by (simp only:)
  qed
  have elems: "\<forall>p \<in> set (take i ys @ (d, other) # drop i ys).
      snd p \<noteq> self \<and> snd p < length store \<and> fst p \<noteq> NaN
      \<and> fst p = RVOMath_absSq (Vector2_subtract (position a) (position (store ! snd p)))"
  proof
    fix p assume "p \<in> set (take i ys @ (d, other) # drop i ys)"
    then have "p = (d, other) \<or> p \<in> set ys"
      by (auto dest: in_set_takeD in_set_dropD)
    then show "snd p \<noteq> self \<and> snd p < length store \<and> fst p \<noteq> NaN
      \<and> fst p = RVOMath_absSq (Vector2_subtract (position a) (position (store ! snd p)))"
      using so dn sub ok by (auto simp: neighbours_ok_def d_def)
  qed
  have f: "agentNeighbors a' = take i ys @ (d, other) # drop i ys"
    "position a' = position a" "maxNeighbors a' = maxNeighbors a"
    using a' res by simp_all
  show ?thesis
    unfolding neighbours_ok_def f using sorted len elems by blast
qed

lemmas vec_defs =
  RVOMath_sqr_def RVOMath_absSq_def RVOMath_abs_def RVOMath_sqrt_def RVOMath_det_def
  RVOMath_normalize_def Vector2_subtract_def Vector2_dot_def Vector2_multiply_def
  Vector2_divide_def Vector2_add_def Vector2_negate_def minus_number_def

lemma linearProgram2_loop_frame:
  "\<exists>v. snd (linearProgram2_loop lines r opt dOpt i this) = this \<lparr> newVelocity := v \<rparr>"
proof (induction "length lines - i" arbitrary: i this)
  case 0
  then have "snd (linearProgram2_loop lines r opt dOpt i this) = this \<lparr> newVelocity := newVelocity this \<rparr>"
    by (simp add: linearProgram2_loop.simps)
  then show ?case by blast
next
  case (Suc k)
  then have i: "i < length lines" and k: "k = length lines - (i + 1)" by simp_all
  have ih: "\<exists>v. snd (linearProgram2_loop lines r opt dOpt (i + 1) (this \<lparr> newVelocity := w \<rparr>))
              = this \<lparr> newVelocity := v \<rparr>" for w
    using Suc.hyps(1) [OF k, of "this \<lparr> newVelocity := w \<rparr>"] by simp
  have ih0: "\<exists>v. snd (linearProgram2_loop lines r opt dOpt (i + 1) this) = this \<lparr> newVelocity := v \<rparr>"
    using ih [of "newVelocity this"] by simp
  show ?case
  proof (cases "RVOMath_det (direction (lines ! i))
              (Vector2_subtract (point (lines ! i)) (newVelocity this)) > Fin 0")
    case False
    with i ih0 show ?thesis by (subst linearProgram2_loop.simps) simp
  next
    case True
    show ?thesis
    proof (cases "linearProgram1 lines i r opt dOpt")
      case None
      with i True have "snd (linearProgram2_loop lines r opt dOpt i this)
          = this \<lparr> newVelocity := newVelocity this \<rparr>"
        by (subst linearProgram2_loop.simps) (simp add: Let_def)
      then show ?thesis by blast
    next
      case (Some w)
      with i True ih [of w] show ?thesis
        by (subst linearProgram2_loop.simps) (simp add: Let_def)
    qed
  qed
qed

lemma linearProgram2_frame:
  "\<exists>v. snd (linearProgram2 lines r opt dOpt this) = this \<lparr> newVelocity := v \<rparr>"
proof -
  have "\<exists>v. snd (linearProgram2_loop lines r opt dOpt 0 (this \<lparr> newVelocity := w \<rparr>))
            = this \<lparr> newVelocity := v \<rparr>" for w
    using linearProgram2_loop_frame [of lines r opt dOpt 0 "this \<lparr> newVelocity := w \<rparr>"] by simp
  then show ?thesis by (auto simp: linearProgram2_def Let_def)
qed

lemma linearProgram3_loop_id:
  "linearProgram3_loop lines numObstLines r i distance this = this"
proof (induction "length lines - i" arbitrary: i distance this)
  case 0
  then show ?case by (simp add: linearProgram3_loop.simps)
next
  case (Suc k)
  then have i: "i < length lines" and k: "k = length lines - (i + 1)" by simp_all
  note ih = Suc.hyps(1) [OF k]
  show ?case
  proof (cases "RVOMath_det (direction (lines ! i))
              (Vector2_subtract (point (lines ! i)) (newVelocity this)) > distance")
    case False
    with i ih show ?thesis by (subst linearProgram3_loop.simps) simp
  next
    case True
    define projLines where "projLines = map (\<lambda>ii. lines ! ii) [0 ..< numObstLines]
                              @ linearProgram3_projLines lines i [numObstLines ..< i]"
    define opt where "opt = Vector2 (- y_v (direction (lines ! i))) (x_v (direction (lines ! i)))"
    obtain v where v: "snd (linearProgram2 projLines r opt True this) = this \<lparr> newVelocity := v \<rparr>"
      using linearProgram2_frame by blast
    obtain f t2 where p: "linearProgram2 projLines r opt True this = (f, t2)" by fastforce
    with v have t2: "t2 = this \<lparr> newVelocity := v \<rparr>" by simp
    have restore: "(if f < length projLines then t2 \<lparr> newVelocity := newVelocity this \<rparr>
                 else t2 \<lparr> newVelocity := newVelocity this \<rparr>) = this"
      by (simp add: t2)
    show ?thesis
      using i True
      by (subst linearProgram3_loop.simps)
        (simp add: Let_def projLines_def [symmetric] opt_def [symmetric] p t2 ih [simplified])
  qed
qed

lemma linearProgram3_id: "linearProgram3 lines numObstLines beginLine r this = this"
  by (simp add: linearProgram3_def linearProgram3_loop_id)

lemma push_line_frame [simp]:
  "core (push_line this l) = core this"
  "agentNeighbors (push_line this l) = agentNeighbors this"
  "obstacleNeighbors (push_line this l) = obstacleNeighbors this"
  "newVelocity (push_line this l) = newVelocity this"
  "orcaLines (push_line this l) = orcaLines this @ [l]"
  by (simp_all add: push_line_def)

lemma obstacleOrcaLine_cases:
  "obstacleOrcaLine obs this o1 = Some this' \<Longrightarrow>
     this' = this \<or> (\<exists>l. this' = push_line this l)"
  unfolding obstacleOrcaLine_def Let_def
  by (simp split: option.splits if_splits prod.splits) blast+

lemma obstacleOrcaLine_frame:
  "obstacleOrcaLine obs this o1 = Some this' \<Longrightarrow> lines_frame this this'"
  by (auto simp: lines_frame_def dest!: obstacleOrcaLine_cases)

lemma obstacleOrcaLines_frame:
  "obstacleOrcaLines obs os this = Some this' \<Longrightarrow> lines_frame this this'"
proof (induction os arbitrary: this)
  case Nil
  then show ?case by (simp add: lines_frame_def)
next
  case (Cons o1 os)
  from Cons.prems obtain t1 where a: "obstacleOrcaLine obs this o1 = Some t1"
    and b: "obstacleOrcaLines obs os t1 = Some this'"
    by (auto split: option.splits)
  from obstacleOrcaLine_frame [OF a] Cons.IH [OF b] show ?case
    by (simp add: lines_frame_def)
qed

lemma agentOrcaLines_frame:
  "agentOrcaLines store ts rs this = Some this' \<Longrightarrow> lines_frame this this'"
proof (induction rs arbitrary: this)
  case Nil
  then show ?case by (simp add: lines_frame_def)
next
  case (Cons r rs)
  from Cons.prems obtain other where
    b: "agentOrcaLines store ts rs (push_line this (agentOrcaLine ts this other)) = Some this'"
    by (auto split: option.splits)
  from Cons.IH [OF b] show ?case by (simp add: lines_frame_def)
qed

lemma computeNewVelocity_result:
  assumes "computeNewVelocity sim this = Some this'"
  shows "core this' = core this \<and> agentNeighbors this' = agentNeighbors this
     \<and> obstacleNeighbors this' = obstacleNeighbors this
     \<and> (\<exists>t0. this' = snd (linearProgram2 (orcaLines this') (maxSpeed this) (prefVelocity this)
                                False t0))"
proof -
  let ?t0 = "this \<lparr> orcaLines := [] \<rparr>"
  from assms obtain t1 t2 where
    a: "obstacleOrcaLines (obstacles sim) (map snd (obstacleNeighbors ?t0)) ?t0 = Some t1"
    and b: "agentOrcaLines (agents sim) (getTimeStep sim) (map snd (agentNeighbors t1)) t1 = Some t2"
    and c: "this' = (let (lineFail, t3) = linearProgram2 (orcaLines t2) (maxSpeed t2)
                        (prefVelocity t2) False t2
                     in if lineFail < length (orcaLines t3)
                        then linearProgram3 (orcaLines t3) (length (orcaLines t2)) lineFail
                               (maxSpeed t3) t3
                        else t3)"
    by (auto simp: computeNewVelocity_def Let_def split: option.splits prod.splits)
  from c have c': "this' = snd (linearProgram2 (orcaLines t2) (maxSpeed t2) (prefVelocity t2) False t2)"
    by (simp add: linearProgram3_id split: prod.splits)
  obtain v where v: "this' = t2 \<lparr> newVelocity := v \<rparr>"
    using linearProgram2_frame [of "orcaLines t2" "maxSpeed t2" "prefVelocity t2" False t2] c'
    by auto
  from obstacleOrcaLines_frame [OF a] agentOrcaLines_frame [OF b] have
    f: "core t2 = core this" "agentNeighbors t2 = agentNeighbors this"
       "obstacleNeighbors t2 = obstacleNeighbors this"
    by (simp_all add: lines_frame_def)
  from core_fields [OF f(1)] have m: "maxSpeed t2 = maxSpeed this" "prefVelocity t2 = prefVelocity this"
    by simp_all
  have "orcaLines this' = orcaLines t2" by (simp add: v)
  with c' m have "this' = snd (linearProgram2 (orcaLines this') (maxSpeed this) (prefVelocity this)
                                False t2)"
    by simp
  then have p2: "\<exists>t0. this' = snd (linearProgram2 (orcaLines this') (maxSpeed this)
                                (prefVelocity this) False t0)"
    by (rule exI)
  have p1: "core this' = core this" "agentNeighbors this' = agentNeighbors this"
    "obstacleNeighbors this' = obstacleNeighbors this"
    using f by (simp_all add: v)
  from p1 p2 show ?thesis by (intro conjI)
qed

lemma computeNeighbors_frame:
  assumes "computeNeighbors sim self this = Some this'"
  shows "core this' = core this \<and> orcaLines this' = orcaLines this
     \<and> newVelocity this' = newVelocity this"
proof -
  let ?t0 = "this \<lparr> obstacleNeighbors := [] \<rparr>"
  from assms obtain t1 where
    a: "queryObstacleTreeRecursive (obstacles sim) ?t0
          (RVOMath_sqr (timeHorizonObst ?t0 * maxSpeed ?t0 + radius ?t0))
          (obstacleTree (kdTree sim)) = Some t1"
    by (auto simp: computeNeighbors_def computeObstacleNeighbors_def Let_def split: option.splits)
  let ?t2 = "t1 \<lparr> agentNeighbors := [] \<rparr>"
  let ?I = "\<lambda>a. core a = core this \<and> orcaLines a = orcaLines this
     \<and> newVelocity a = newVelocity this"
  from queryObstacleTreeRecursive_frame [OF a] have i2: "?I ?t2" by simp
  show ?thesis
  proof (cases "maxNeighbors ?t2 > 0")
    case False
    with assms a have "this' = ?t2"
      by (auto simp: computeNeighbors_def computeObstacleNeighbors_def Let_def split: option.splits)
    with i2 show ?thesis by simp
  next
    case True
    with assms a obtain r' where
      q: "queryAgentTreeRecursive (agents sim) (kdTree sim) self ?t2
            (RVOMath_sqr (neighborDist ?t2)) 0 = Some (this', r')"
      by (auto simp: computeNeighbors_def computeObstacleNeighbors_def computeAgentNeighbors_def
          Let_def split: option.splits prod.splits)
    show ?thesis
    proof (rule queryAgentTreeRecursive_invariant [where I = ?I, OF _ q i2])
      fix a r other a' r'
      assume "?I a" "insertAgentNeighbor (agents sim) self a other r = Some (a', r')"
      then show "?I a'" using insertAgentNeighbor_frame by metis
    qed
  qed
qed

lemma computeNeighbors_ok:
  assumes "computeNeighbors sim self this = Some this'" and pos: "maxNeighbors this > 0"
  shows "neighbours_ok (agents sim) self this'"
proof -
  let ?t0 = "this \<lparr> obstacleNeighbors := [] \<rparr>"
  from assms obtain t1 where
    a: "queryObstacleTreeRecursive (obstacles sim) ?t0
          (RVOMath_sqr (timeHorizonObst ?t0 * maxSpeed ?t0 + radius ?t0))
          (obstacleTree (kdTree sim)) = Some t1"
    by (auto simp: computeNeighbors_def computeObstacleNeighbors_def Let_def split: option.splits)
  let ?t2 = "t1 \<lparr> agentNeighbors := [] \<rparr>"
  from queryObstacleTreeRecursive_frame [OF a] have "core t1 = core this" by simp
  from core_fields [OF this] pos have m: "maxNeighbors ?t2 > 0" by simp
  then have i2: "neighbours_ok (agents sim) self ?t2" by (simp add: neighbours_ok_def)
  from m assms a obtain r' where
    q: "queryAgentTreeRecursive (agents sim) (kdTree sim) self ?t2
          (RVOMath_sqr (neighborDist ?t2)) 0 = Some (this', r')"
    by (auto simp: computeNeighbors_def computeObstacleNeighbors_def computeAgentNeighbors_def
        Let_def split: option.splits prod.splits)
  show ?thesis
    by (rule queryAgentTreeRecursive_invariant
        [where I = "neighbours_ok (agents sim) self", OF _ q i2])
      (rule insertAgentNeighbor_ok)
qed

lemma position_core [simp]: "position (core a) = position a"
  by (simp add: core_def)

lemma map_core_positions:
  "map core xs = map core ys \<Longrightarrow> map position xs = map position ys"
proof -
  assume "map core xs = map core ys"
  then have "map position (map core xs) = map position (map core ys)" by simp
  then show ?thesis by (simp add: comp_def)
qed

lemma neighbours_ok_transfer:
  assumes ok: "neighbours_ok store self a"
    and st: "map position store' = map position store"
    and a: "agentNeighbors a' = agentNeighbors a" "position a' = position a"
           "maxNeighbors a' = maxNeighbors a"
  shows "neighbours_ok store' self a'"
proof -
  from st have len: "length store' = length store" by (metis length_map)
  have nth: "position (store' ! j) = position (store ! j)" if "j < length store" for j
    using that st len by (metis nth_map)
  from ok show ?thesis
    unfolding neighbours_ok_def a len by (auto simp: nth)
qed

lemma compute_one:
  assumes n: "computeNeighbors sim i (agents sim ! i) = Some a1"
    and v: "computeNewVelocity sim a1 = Some a2"
  shows "computed (agents sim) i a2"
proof -
  from computeNeighbors_frame [OF n] have c1: "core a1 = core (agents sim ! i)" by simp
  from computeNewVelocity_result [OF v] obtain t0 where
    r: "core a2 = core a1" "agentNeighbors a2 = agentNeighbors a1"
       "a2 = snd (linearProgram2 (orcaLines a2) (maxSpeed a1) (prefVelocity a1) False t0)"
    by blast
  from core_fields [OF r(1)] have f: "position a2 = position a1" "maxNeighbors a2 = maxNeighbors a1"
    "maxSpeed a2 = maxSpeed a1" "prefVelocity a2 = prefVelocity a1"
    by simp_all
  from core_fields [OF c1] have f1: "maxNeighbors a1 = maxNeighbors (agents sim ! i)" by simp
  have "neighbours_ok (agents sim) i a2" if "maxNeighbors a2 > 0"
  proof -
    from that f f1 have "maxNeighbors (agents sim ! i) > 0" by simp
    from computeNeighbors_ok [OF n this] have "neighbours_ok (agents sim) i a1" .
    then show ?thesis using r(2) f(1,2) by (rule neighbours_ok_transfer [OF _ refl])
  qed
  moreover have "\<exists>t0. a2 = snd (linearProgram2 (orcaLines a2) (maxSpeed a2) (prefVelocity a2) False t0)"
    using r(3) f(3,4) by metis
  moreover have "core a2 = core (agents sim ! i)" using r(1) c1 by simp
  ultimately show ?thesis by (simp add: computed_def)
qed

lemma computed_transfer:
  assumes c: "computed store' k a" and m: "map core store' = map core store"
    and k: "k < length store"
  shows "computed store k a"
proof -
  from m have len: "length store' = length store" by (metis length_map)
  from m k len have ck: "core (store' ! k) = core (store ! k)" by (metis nth_map)
  from map_core_positions [OF m] have p: "map position store = map position store'" by simp
  from c have "maxNeighbors a > 0 \<longrightarrow> neighbours_ok store k a"
    unfolding computed_def using neighbours_ok_transfer [OF _ p refl refl refl] by blast
  with c ck show ?thesis by (simp add: computed_def)
qed

lemma doStep_compute_agents:
  "doStep_compute is sim = Some sim' \<Longrightarrow> distinct is \<Longrightarrow> \<forall>i \<in> set is. i < length (agents sim) \<Longrightarrow>
     map core (agents sim') = map core (agents sim)
     \<and> (\<forall>i \<in> set is. computed (agents sim) i (agents sim' ! i))
     \<and> (\<forall>j. j \<notin> set is \<longrightarrow> agents sim' ! j = agents sim ! j)"
proof (induction "is" arbitrary: sim)
  case Nil
  then show ?case by simp
next
  case (Cons i "is")
  from Cons.prems(1) obtain a1 a2 where
    n: "computeNeighbors sim i (agents sim ! i) = Some a1"
    and v: "computeNewVelocity sim a1 = Some a2"
    and rest: "doStep_compute is (sim \<lparr> agents := (agents sim) [i := a2] \<rparr>) = Some sim'"
    by (auto split: option.splits)
  let ?sim1 = "sim \<lparr> agents := (agents sim) [i := a2] \<rparr>"
  from Cons.prems have i: "i < length (agents sim)" "i \<notin> set is" "distinct is"
    and is': "\<forall>k \<in> set is. k < length (agents ?sim1)"
    by auto
  from compute_one [OF n v] have c2: "computed (agents sim) i a2" .
  then have core2: "core a2 = core (agents sim ! i)" by (simp add: computed_def)
  have m1: "map core (agents ?sim1) = map core (agents sim)"
    using i(1) core2 by (simp add: map_update list_update_same_conv)
  from Cons.IH [OF rest i(3) is'] have ih:
    "map core (agents sim') = map core (agents ?sim1)"
    "\<forall>k \<in> set is. computed (agents ?sim1) k (agents sim' ! k)"
    "\<forall>j. j \<notin> set is \<longrightarrow> agents sim' ! j = agents ?sim1 ! j"
    by auto
  have a: "map core (agents sim') = map core (agents sim)" using ih(1) m1 by simp
  have b: "computed (agents sim) k (agents sim' ! k)" if k: "k \<in> set (i # is)" for k
  proof (cases "k = i")
    case True
    with ih(3) i(1,2) have "agents sim' ! k = a2" by simp
    with c2 True show ?thesis by simp
  next
    case False
    with k have ks: "k \<in> set is" by simp
    with Cons.prems(3) have kl: "k < length (agents sim)" by simp
    from ih(2) ks have "computed (agents ?sim1) k (agents sim' ! k)" by blast
    then show ?thesis using m1 kl by (rule computed_transfer)
  qed
  have c: "agents sim' ! j = agents sim ! j" if "j \<notin> set (i # is)" for j
    using that ih(3) by simp
  from a b c show ?case by blast
qed

lemma update_fields:
  "agentNeighbors (update sim a) = agentNeighbors a"
  "orcaLines (update sim a) = orcaLines a"
  "velocity (update sim a) = newVelocity a"
  "maxSpeed (update sim a) = maxSpeed a"
  "prefVelocity (update sim a) = prefVelocity a"
  "maxNeighbors (update sim a) = maxNeighbors a"
  by (simp_all add: update_def Let_def)

lemma doStep_agent:
  assumes d: "doStep sim = Some (t, sim')" and i: "i < length (agents sim)"
  shows "\<exists>a s. computed (agents sim) i a \<and> agents sim' ! i = update s a"
proof -
  from d obtain kd sim1 where
    c: "doStep_compute [0 ..< length (agents sim)] (sim \<lparr> kdTree := kd \<rparr>) = Some sim1"
    and r: "agents sim' = map (update sim1) (agents sim1)"
    by (auto simp: doStep_def Let_def split: option.splits)
  have "\<forall>i \<in> set [0 ..< length (agents sim)]. i < length (agents (sim \<lparr> kdTree := kd \<rparr>))"
    by simp
  from doStep_compute_agents [OF c distinct_upt this] i have
    m: "map core (agents sim1) = map core (agents sim)"
    and k: "computed (agents sim) i (agents sim1 ! i)"
    by simp_all
  from m have "length (agents sim1) = length (agents sim)" by (metis length_map)
  with i r have "agents sim' ! i = update sim1 (agents sim1 ! i)" by simp
  with k show ?thesis by blast
qed

text \<open>
  Claim C4, as amended. The claim as stated fails twice, see the
  counterexample below: two neighbours at the same distance have equal
  keys, and the commit phase of the step moves the agents after the keys were computed.
  After \<^verbatim>\<open>doStep()\<close>, for every agent with \<^verbatim>\<open>maxNeighbors > 0\<close>: the list of agent
  neighbours has at most \<^verbatim>\<open>maxNeighbors\<close> entries; each key is the squared distance
  between the positions that the agent and the neighbour had when the step began; no
  entry refers to the agent itself; and the keys are ascending, not always strictly.
\<close>

theorem neighbour_list_invariant:
  "doStep sim = Some (t, sim') \<and> i < length (agents sim) \<and> maxNeighbors (agents sim ! i) > 0
   \<longrightarrow> int (length (agentNeighbors (agents sim' ! i))) \<le> maxNeighbors (agents sim ! i)
     \<and> (\<forall>p \<in> set (agentNeighbors (agents sim' ! i)).
           snd p \<noteq> i \<and> snd p < length (agents sim)
           \<and> fst p = RVOMath_absSq (Vector2_subtract (position (agents sim ! i))
                                       (position (agents sim ! snd p))))
     \<and> sorted_wrt (\<lambda>p q. fst p \<le> fst q) (agentNeighbors (agents sim' ! i))"
proof (intro impI, elim conjE)
  assume d: "doStep sim = Some (t, sim')" and i: "i < length (agents sim)"
    and m: "maxNeighbors (agents sim ! i) > 0"
  from doStep_agent [OF d i] obtain a s where
    c: "computed (agents sim) i a" and u: "agents sim' ! i = update s a"
    by blast
  from c have core: "core a = core (agents sim ! i)" by (simp add: computed_def)
  from core_fields [OF core] have f: "maxNeighbors a = maxNeighbors (agents sim ! i)"
    "position a = position (agents sim ! i)" by simp_all
  with c m have "neighbours_ok (agents sim) i a" by (simp add: computed_def)
  then show "int (length (agentNeighbors (agents sim' ! i))) \<le> maxNeighbors (agents sim ! i)
     \<and> (\<forall>p \<in> set (agentNeighbors (agents sim' ! i)).
           snd p \<noteq> i \<and> snd p < length (agents sim)
           \<and> fst p = RVOMath_absSq (Vector2_subtract (position (agents sim ! i))
                                       (position (agents sim ! snd p))))
     \<and> sorted_wrt (\<lambda>p q. fst p \<le> fst q) (agentNeighbors (agents sim' ! i))"
    unfolding neighbours_ok_def f by (simp add: u update_fields)
qed

lemma example_sim_eq:
  "example_sim =
     \<lparr> agents = [example_agent 0 (Vector2 (Fin 0) (Fin 0)) (Vector2 (Fin (- 30)) (Fin (- 40))),
                 example_agent 1 (Vector2 (Fin 0) (Fin 0)) (Vector2 (Fin 0) (Fin 0)),
                 example_agent 2 (Vector2 (Fin 0) (Fin (- 8))) (Vector2 (Fin 0) (Fin 40))],
       obstacles = [], kdTree = new_KdTree, timeStep = Fin 0.1,
       defaultAgent = Some (new_Agent \<lparr> maxNeighbors := 10, maxSpeed := Fin 5,
          neighborDist := Fin 15, radius := Fin 1, timeHorizon := Fin 1,
          timeHorizonObst := Fin 1, velocity := Vector2 (Fin 0) (Fin 0) \<rparr>),
       globalTime = Fin 0 \<rparr>"
  by (simp add: example_sim_def example_agent_def setAgentPrefVelocity_def addAgent_def
      setAgentDefaults_def new_Simulator_def clear_def new_Agent_def Let_def)

lemma example_build: "buildAgentTree example_sim = Some example_kd"
  apply (simp add: buildAgentTree_def example_sim_eq new_KdTree_def getNumAgents_def Let_def)
  apply (subst buildAgentTreeRecursive.simps)
  apply (simp add: deref_def agent_position_def example_agent_def MAX_LEAF_SIZE_def
      new_AgentTreeNode_def example_kd_def numeral_3_eq_3 numeral_eq_Suc upt_rec)
  done

lemma sqrt_values: "sqrt 64 = 8" "sqrt 2500 = 50" "sqrt 16 = 4" "sqrt 1600 = 40"
  by (rule real_sqrt_unique; simp)+

lemmas step_defs =
  computeNeighbors_def computeObstacleNeighbors_def computeAgentNeighbors_def
  computeNewVelocity_def push_line_def getTimeStep_def agentOrcaLine_def
  linearProgram2_def linearProgram2_loop.simps linearProgram1_def
  linearProgram1_loop.simps RVO_EPSILON_def deref_def MAX_LEAF_SIZE_def
  insertAgentNeighbor_def

lemma example_compute:
  "doStep_compute [0, 1, 2] (example_sim \<lparr> kdTree := example_kd \<rparr>)
   = Some (example_sim \<lparr> kdTree := example_kd, agents := example_computed \<rparr>)"
  apply (simp add: example_sim_eq example_kd_def example_agent_def Let_def)
  apply (simp add: step_defs Let_def)
  apply (subst queryAgentTreeRecursive.simps)
  apply (simp add: step_defs vec_defs upt_rec sqrt_values Let_def)
  apply (subst queryAgentTreeRecursive.simps)
  apply (simp add: step_defs vec_defs upt_rec sqrt_values Let_def)
  apply (subst queryAgentTreeRecursive.simps)
  apply (simp add: step_defs vec_defs upt_rec sqrt_values Let_def)
  apply (simp add: example_computed_def example_agent_def nan_line_def example_line_def
      example_line'_def)
  done

lemma example_doStep: "doStep example_sim = Some (Fin 0.1, example_after)"
proof -
  have l: "[0 ..< length (agents example_sim)] = [0, 1, 2]"
    by (simp add: example_sim_eq upt_rec)
  have t: "timeStep example_sim = Fin 0.1" "globalTime example_sim = Fin 0"
    by (simp_all add: example_sim_eq)
  show ?thesis
    unfolding doStep_def example_build l option.case example_compute
    by (simp add: Let_def example_after_def t update_def getTimeStep_def)
qed

lemma example_sim_agents:
  "length (agents example_sim) = 3"
  "maxSpeed (agents example_sim ! 0) = Fin 5"
  "maxSpeed (agents example_sim ! 2) = Fin 5"
  "maxNeighbors (agents example_sim ! 2) = 10"
  "prefVelocity (agents example_sim ! 2) = Vector2 (Fin 0) (Fin 40)"
  by (simp_all add: example_sim_eq example_agent_def)

lemma example_after_agents:
  "velocity (agents example_after ! 0) = Vector2 (Fin (- 30)) (Fin (- 3))"
  "position (agents example_after ! 0) = Vector2 (Fin (- 3)) (Fin (- 0.3))"
  "velocity (agents example_after ! 2) = Vector2 (Fin 0) (Fin 3)"
  "position (agents example_after ! 2) = Vector2 (Fin 0) (Fin (- 7.7))"
  "agentNeighbors (agents example_after ! 2) = [(Fin 64, 0), (Fin 64, 1)]"
  "orcaLines (agents example_after ! 2) = [example_line', example_line']"
  "agentNeighbors (agents example_after ! 0) = [(Fin 0, 1), (Fin 64, 2)]"
  by (simp_all add: example_after_def example_computed_def update_def getTimeStep_def
      example_sim_eq example_agent_def vec_defs Let_def)

theorem neighbour_list_counterexample:
  "doStep example_sim = Some (Fin 0.1, example_after)
   \<and> maxNeighbors (agents example_sim ! 2) = 10
   \<and> map fst (agentNeighbors (agents example_after ! 2)) = [Fin 64, Fin 64]
   \<and> \<not> sorted_wrt (<) (map fst (agentNeighbors (agents example_after ! 2)))
   \<and> snd (agentNeighbors (agents example_after ! 2) ! 0) = 0
   \<and> RVOMath_absSq (Vector2_subtract (position (agents example_after ! 2))
                                       (position (agents example_after ! 0))) = Fin 63.76"
  by (simp add: example_doStep example_after_agents example_sim_agents vec_defs)

theorem neighbour_list_invariant_witness:
  "doStep example_sim = Some (Fin 0.1, example_after) \<and> 2 < length (agents example_sim)
   \<and> maxNeighbors (agents example_sim ! 2) > 0
   \<and> agentNeighbors (agents example_after ! 2) = [(Fin 64, 0), (Fin 64, 1)]
   \<and> int (length (agentNeighbors (agents example_after ! 2)))
         \<le> maxNeighbors (agents example_sim ! 2)
   \<and> sorted_wrt (\<lambda>p q. fst p \<le> fst q) (agentNeighbors (agents example_after ! 2))"
proof -
  have h: "doStep example_sim = Some (Fin 0.1, example_after) \<and> 2 < length (agents example_sim)
   \<and> maxNeighbors (agents example_sim ! 2) > 0"
    by (simp add: example_doStep example_sim_agents)
  with neighbour_list_invariant [of example_sim "Fin 0.1" example_after 2] have
    "int (length (agentNeighbors (agents example_after ! 2)))
         \<le> maxNeighbors (agents example_sim ! 2)
     \<and> sorted_wrt (\<lambda>p q. fst p \<le> fst q) (agentNeighbors (agents example_after ! 2))"
    by blast
  with h show ?thesis by (simp add: example_after_agents)
qed

lemma alreadyCovered_iff:
  "alreadyCovered invT r p1 p2 lines = list_ex (covers_code invT r p1 p2) lines"
  by (induction lines) (auto simp: covers_code_def Let_def)

lemma covers_code_spec:
  "covers_code (Fin i) (Fin r) (Vector2 (Fin a) (Fin b)) (Vector2 (Fin c) (Fin d))
       \<lparr> point = Vector2 (Fin px) (Fin py), direction = Vector2 (Fin dx) (Fin dy) \<rparr>
   = covers_spec (Fin i) (Fin r) (Vector2 (Fin a) (Fin b)) (Vector2 (Fin c) (Fin d))
       \<lparr> point = Vector2 (Fin px) (Fin py), direction = Vector2 (Fin dx) (Fin dy) \<rparr>"
  by (auto simp: covers_code_def covers_spec_def vec_defs RVO_EPSILON_def algebra_simps)

lemma wall_obstacles:
  "obstacles wall_sim =
     [\<lparr> next_o = Some 1, previous_o = Some 1, direction_o = Vector2 (Fin 1) (Fin 0),
        point_o = Vector2 (Fin (- 1)) (Fin 1), id_o = 0, convex_o = True \<rparr>,
      \<lparr> next_o = Some 0, previous_o = Some 0, direction_o = Vector2 (Fin (- 1)) (Fin 0),
        point_o = Vector2 (Fin 1) (Fin 1), id_o = 1, convex_o = True \<rparr>]"
  by (simp add: wall_sim_def addObstacle_def new_Simulator_def clear_def Let_def upt_rec
      addObstacle_step_def new_Obstacle_def vec_defs)

text \<open>
  Claim C2, as amended. The claim as stated fails for the first edge of a step: no line
  has been added yet, so every line satisfies the condition, and a line is emitted all
  the same; see the counterexample below. In \<^verbatim>\<open>computeNewVelocity\<close> an obstacle edge is
  skipped, the agent being left as it is, as soon as some line added before satisfies
  the condition for both end points. The source tests
  \<open>det - inv\<tau>\<^sub>o \<cdot> \<rho> \<ge> - \<epsilon>\<close>, which for finite numbers is the condition of the claim.
\<close>

theorem coverage_skip:
  "(alreadyCovered invT r p1 p2 lines \<longleftrightarrow> list_ex (covers_code invT r p1 p2) lines)
   \<and> (deref obs o1 = Some obstacle1 \<and> next_o obstacle1 = Some o2 \<and> deref obs o2 = Some obstacle2
      \<and> list_ex (covers_code (Fin 1 / timeHorizonObst this) (radius this)
                   (Vector2_subtract (point_o obstacle1) (position this))
                   (Vector2_subtract (point_o obstacle2) (position this)))
           (orcaLines this)
      \<longrightarrow> obstacleOrcaLine obs this o1 = Some this)
   \<and> covers_code (Fin i) (Fin r') (Vector2 (Fin a) (Fin b)) (Vector2 (Fin c) (Fin d))
        \<lparr> point = Vector2 (Fin px) (Fin py), direction = Vector2 (Fin dx) (Fin dy) \<rparr>
     = covers_spec (Fin i) (Fin r') (Vector2 (Fin a) (Fin b)) (Vector2 (Fin c) (Fin d))
        \<lparr> point = Vector2 (Fin px) (Fin py), direction = Vector2 (Fin dx) (Fin dy) \<rparr>"
  by (simp add: alreadyCovered_iff covers_code_spec obstacleOrcaLine_def Let_def)

theorem coverage_skip_witness:
  "deref (obstacles wall_sim) 0 = Some (obstacles wall_sim ! 0)
   \<and> next_o (obstacles wall_sim ! 0) = Some 1
   \<and> deref (obstacles wall_sim) 1 = Some (obstacles wall_sim ! 1)
   \<and> list_ex (covers_code (Fin 1 / timeHorizonObst (wall_agent \<lparr> orcaLines := [wall_line] \<rparr>))
                (radius (wall_agent \<lparr> orcaLines := [wall_line] \<rparr>))
                (Vector2_subtract (point_o (obstacles wall_sim ! 0))
                   (position (wall_agent \<lparr> orcaLines := [wall_line] \<rparr>)))
                (Vector2_subtract (point_o (obstacles wall_sim ! 1))
                   (position (wall_agent \<lparr> orcaLines := [wall_line] \<rparr>))))
        (orcaLines (wall_agent \<lparr> orcaLines := [wall_line] \<rparr>))
   \<and> obstacleOrcaLine (obstacles wall_sim) (wall_agent \<lparr> orcaLines := [wall_line] \<rparr>) 0
       = Some (wall_agent \<lparr> orcaLines := [wall_line] \<rparr>)"
proof -
  have h: "deref (obstacles wall_sim) 0 = Some (obstacles wall_sim ! 0)
   \<and> next_o (obstacles wall_sim ! 0) = Some 1
   \<and> deref (obstacles wall_sim) 1 = Some (obstacles wall_sim ! 1)
   \<and> list_ex (covers_code (Fin 1 / timeHorizonObst (wall_agent \<lparr> orcaLines := [wall_line] \<rparr>))
                (radius (wall_agent \<lparr> orcaLines := [wall_line] \<rparr>))
                (Vector2_subtract (point_o (obstacles wall_sim ! 0))
                   (position (wall_agent \<lparr> orcaLines := [wall_line] \<rparr>)))
                (Vector2_subtract (point_o (obstacles wall_sim ! 1))
                   (position (wall_agent \<lparr> orcaLines := [wall_line] \<rparr>))))
        (orcaLines (wall_agent \<lparr> orcaLines := [wall_line] \<rparr>))"
    by (simp add: wall_obstacles deref_def wall_agent_def new_Agent_def wall_line_def
        covers_code_def vec_defs RVO_EPSILON_def)
  with coverage_skip [of _ _ _ _ _ "obstacles wall_sim" 0 "obstacles wall_sim ! 0" 1
      "obstacles wall_sim ! 1" "wall_agent \<lparr> orcaLines := [wall_line] \<rparr>"]
  show ?thesis by blast
qed

text \<open>
  With no line added yet, the condition holds for every line; the edge of the wall is
  not skipped: its line is the only ORCA line of the agent after \<^verbatim>\<open>computeNewVelocity\<close>.
\<close>

theorem coverage_skip_counterexample:
  "orcaLines (wall_agent \<lparr> orcaLines := [] \<rparr>) = []
   \<and> list_all (covers_spec (Fin 1 / timeHorizonObst wall_agent) (radius wall_agent)
                 (Vector2_subtract (point_o (obstacles wall_sim ! 0)) (position wall_agent))
                 (Vector2_subtract (point_o (obstacles wall_sim ! 1)) (position wall_agent)))
        (orcaLines (wall_agent \<lparr> orcaLines := [] \<rparr>))
   \<and> obstacleOrcaLine (obstacles wall_sim) (wall_agent \<lparr> orcaLines := [] \<rparr>) 0
       = Some (wall_agent \<lparr> orcaLines := [wall_line] \<rparr>)
   \<and> computeNewVelocity wall_sim wall_agent = Some (wall_agent \<lparr> orcaLines := [wall_line] \<rparr>)"
proof -
  have r: "obstacleOrcaLine (obstacles wall_sim) (wall_agent \<lparr> orcaLines := [] \<rparr>) 0
       = Some (wall_agent \<lparr> orcaLines := [wall_line] \<rparr>)"
    by (simp add: obstacleOrcaLine_def wall_obstacles deref_def wall_agent_def new_Agent_def
        wall_line_def vec_defs Let_def push_line_def)
  have c: "computeNewVelocity wall_sim wall_agent = Some (wall_agent \<lparr> orcaLines := [wall_line] \<rparr>)"
    unfolding computeNewVelocity_def Let_def
    by (simp add: r [unfolded wall_agent_def new_Agent_def wall_line_def, simplified]
        wall_agent_def new_Agent_def wall_line_def step_defs vec_defs Let_def)
  have a: "list_all (covers_spec (Fin 1 / timeHorizonObst wall_agent) (radius wall_agent)
                 (Vector2_subtract (point_o (obstacles wall_sim ! 0)) (position wall_agent))
                 (Vector2_subtract (point_o (obstacles wall_sim ! 1)) (position wall_agent)))
        (orcaLines (wall_agent \<lparr> orcaLines := [] \<rparr>))"
    by simp
  from r c a show ?thesis by simp
qed

lemma shift_up_insert:
  assumes "shift_up (old @ [e]) d (length old) = (xs', i)"
  shows "i \<le> length old \<and> xs' [i := e] = take i old @ e # drop i old"
proof -
  have "length old < length (old @ [e])" by simp
  from shift_up_result [OF this assms, of e]
  have "i \<le> length old"
    and "xs' [i := e] = take i (old @ [e]) @ e # drop i (take (length old) (old @ [e]))
           @ drop (Suc (length old)) (old @ [e])"
    by blast+
  then show ?thesis by simp
qed

lemma insertObstacleNeighbor_effect:
  assumes "insertObstacleNeighbor obs this obstacle rangeSq = Some this'"
  shows "position this' = position this
     \<and> (\<exists>i \<le> length (obstacleNeighbors this). obstacleNeighbors this' =
          (if edge_distSq obs (position this) obstacle < rangeSq
           then take i (obstacleNeighbors this)
                @ (edge_distSq obs (position this) obstacle, obstacle)
                # drop i (obstacleNeighbors this)
           else obstacleNeighbors this))"
  using assms
  apply (auto simp: insertObstacleNeighbor_def edge_distSq_def edge_points_def Let_def
      split: option.splits if_splits prod.splits)
  apply (blast dest: shift_up_insert)
  done

lemma set_take_drop: "set (take i xs) \<union> set (drop i xs) = set xs"
  by (metis append_take_drop_id set_append)

lemma insertObstacleNeighbor_set:
  assumes "insertObstacleNeighbor obs this obstacle rangeSq = Some this'"
  shows "position this' = position this"
    and "set (obstacleNeighbors this') = set (obstacleNeighbors this)
           \<union> (if edge_distSq obs (position this) obstacle < rangeSq
              then {(edge_distSq obs (position this) obstacle, obstacle)} else {})"
    and "length (obstacleNeighbors this') = length (obstacleNeighbors this)
           + (if edge_distSq obs (position this) obstacle < rangeSq then 1 else 0)"
proof -
  from insertObstacleNeighbor_effect [OF assms] obtain i where
    i: "i \<le> length (obstacleNeighbors this)" and
    p: "position this' = position this" and
    e: "obstacleNeighbors this' =
          (if edge_distSq obs (position this) obstacle < rangeSq
           then take i (obstacleNeighbors this)
                @ (edge_distSq obs (position this) obstacle, obstacle)
                # drop i (obstacleNeighbors this)
           else obstacleNeighbors this)" by blast
  show "position this' = position this" by (rule p)
  show "set (obstacleNeighbors this') = set (obstacleNeighbors this)
           \<union> (if edge_distSq obs (position this) obstacle < rangeSq
              then {(edge_distSq obs (position this) obstacle, obstacle)} else {})"
    using set_take_drop [of i "obstacleNeighbors this"] by (auto simp: e)
  show "length (obstacleNeighbors this') = length (obstacleNeighbors this)
           + (if edge_distSq obs (position this) obstacle < rangeSq then 1 else 0)"
    using i by (simp add: e)
qed

lemma queryObstacleTreeRecursive_effect:
  "queryObstacleTreeRecursive obs agent rangeSq node = Some agent' \<Longrightarrow>
     position agent' = position agent
     \<and> set (obstacleNeighbors agent') = set (obstacleNeighbors agent)
          \<union> (\<lambda>e. (edge_distSq obs (position agent) e, e))
            ` {e. e \<in> set (reached obs (position agent) rangeSq node)
                 \<and> inserted_edge obs (position agent) rangeSq e}
     \<and> length (obstacleNeighbors agent') = length (obstacleNeighbors agent)
          + length (filter (inserted_edge obs (position agent) rangeSq)
                      (reached obs (position agent) rangeSq node))"
proof (induction node arbitrary: agent agent')
  case Null
  then show ?case by simp
next
  case (ObstacleTreeNode ob l r)
  let ?p = "position agent"
  let ?K = "\<lambda>e. (edge_distSq obs ?p e, e)"
  let ?I = "inserted_edge obs ?p rangeSq"
  let ?P = "\<lambda>x y t. position y = ?p
     \<and> set (obstacleNeighbors y) = set (obstacleNeighbors x)
          \<union> ?K ` {e. e \<in> set (reached obs ?p rangeSq t) \<and> ?I e}
     \<and> length (obstacleNeighbors y) = length (obstacleNeighbors x)
          + length (filter ?I (reached obs ?p rangeSq t))"
  from ObstacleTreeNode.prems obtain o1 n o2 where
    d: "deref obs ob = Some o1" "next_o o1 = Some n" "deref obs n = Some o2"
    by (auto split: option.splits)
  define a where "a = RVOMath_leftOf (point_o o1) (point_o o2) ?p"
  define dl where
    "dl = RVOMath_sqr a / RVOMath_absSq (Vector2_subtract (point_o o2) (point_o o1))"
  define first where "first = (if a \<ge> Fin 0 then l else r)"
  define second where "second = (if a \<ge> Fin 0 then r else l)"
  have ep: "edge_points obs ob = Some (point_o o1, point_o o2)"
    using d by (simp add: edge_points_def)
  have IH: "?P x y t"
    if "t = first \<or> t = second" "position x = ?p"
      "queryObstacleTreeRecursive obs x rangeSq t = Some y" for t x y
  proof -
    from that(1) have "t = l \<or> t = r" by (auto simp: first_def second_def)
    with that(2,3) ObstacleTreeNode.IH [of x y] show ?thesis by auto
  qed
  from ObstacleTreeNode.prems obtain a1 where
    q1: "queryObstacleTreeRecursive obs agent rangeSq first = Some a1" and
    rest: "(if dl < rangeSq
            then (case (if a < Fin 0 then insertObstacleNeighbor obs a1 ob rangeSq
                        else Some a1) of
                    None \<Rightarrow> None
                  | Some a2 \<Rightarrow> queryObstacleTreeRecursive obs a2 rangeSq second)
            else Some a1) = Some agent'"
    by (auto simp: d a_def dl_def first_def second_def Let_def split: option.splits if_splits)
  have r: "reached obs ?p rangeSq (ObstacleTreeNode ob l r)
           = reached obs ?p rangeSq first @ [ob]
             @ (if dl < rangeSq then reached obs ?p rangeSq second else [])"
    by (simp add: ep a_def dl_def first_def second_def Let_def)
  have ins: "?I ob \<longleftrightarrow> a < Fin 0 \<and> dl < rangeSq \<and> edge_distSq obs ?p ob < rangeSq"
    by (simp add: inserted_edge_def right_of_edge_def edge_distSqLine_def ep a_def dl_def)
  have 1: "?P agent a1 first"
    by (rule IH [OF _ _ q1]) simp_all
  show ?case
  proof (cases "dl < rangeSq")
    case False
    with rest have "agent' = a1" by simp
    with 1 False show ?thesis
      unfolding r by (auto simp: ins)
  next
    case True
    with rest obtain a2 where
      i: "(if a < Fin 0 then insertObstacleNeighbor obs a1 ob rangeSq else Some a1) = Some a2"
      and q2: "queryObstacleTreeRecursive obs a2 rangeSq second = Some agent'"
      by (auto split: option.splits)
    have 2: "position a2 = ?p
       \<and> set (obstacleNeighbors a2) = set (obstacleNeighbors a1)
          \<union> (if ?I ob then {?K ob} else {})
       \<and> length (obstacleNeighbors a2) = length (obstacleNeighbors a1)
          + (if ?I ob then 1 else 0)"
    proof (cases "a < Fin 0")
      case False
      with i 1 show ?thesis by (simp add: ins)
    next
      case True
      with i have "insertObstacleNeighbor obs a1 ob rangeSq = Some a2" by simp
      from insertObstacleNeighbor_set [OF this] 1 True \<open>dl < rangeSq\<close>
      show ?thesis by (simp add: ins)
    qed
    have 3: "?P a2 agent' second"
      by (rule IH [OF _ _ q2]) (simp_all add: 2)
    from 1 2 3 True show ?thesis
      unfolding r by auto
  qed
qed

lemma edge_obstacles:
  "obstacles edge_sim =
     [\<lparr> next_o = Some 1, previous_o = Some 1, direction_o = Vector2 (Fin 1) (Fin 0),
        point_o = Vector2 (Fin 0) (Fin 0), id_o = 0, convex_o = True \<rparr>,
      \<lparr> next_o = Some 0, previous_o = Some 0, direction_o = Vector2 (Fin (- 1)) (Fin 0),
        point_o = Vector2 (Fin 1) (Fin 0), id_o = 1, convex_o = True \<rparr>]"
  "obstacleTree (kdTree edge_sim) = ObstacleTreeNode 0 (ObstacleTreeNode 1 Null Null) Null"
  by (simp_all add: edge_sim_def addObstacle_def new_Simulator_def clear_def Let_def upt_rec
      addObstacle_step_def new_Obstacle_def vec_defs)

lemma edge_points_example:
  "edge_points (obstacles edge_sim) 0 = Some (Vector2 (Fin 0) (Fin 0), Vector2 (Fin 1) (Fin 0))"
  "edge_points (obstacles edge_sim) 1 = Some (Vector2 (Fin 1) (Fin 0), Vector2 (Fin 0) (Fin 0))"
  "edge_points (obstacles edge_sim) (Suc 0)
   = Some (Vector2 (Fin 1) (Fin 0), Vector2 (Fin 0) (Fin 0))"
  by (simp_all add: edge_points_def edge_obstacles deref_def)

lemma edge_query:
  "computeObstacleNeighbors edge_sim edge_agent (Fin 100) = Some edge_result"
  by (simp add: computeObstacleNeighbors_def edge_obstacles deref_def edge_agent_def
      edge_result_def new_Agent_def insertObstacleNeighbor_def RVOMath_leftOf_def
      RVOMath_distSqPointLineSegment_def vec_defs Let_def)

lemma edge_reached:
  "reached (obstacles edge_sim) (position edge_agent) (Fin 100) (obstacleTree (kdTree edge_sim))
   = [1, 0]"
  by (simp add: edge_obstacles(2) edge_points_example edge_agent_def new_Agent_def
      RVOMath_leftOf_def vec_defs Let_def)

lemma edge_distances:
  "edge_distSq (obstacles edge_sim) (position edge_agent) 0 = Fin 1"
  "edge_distSq (obstacles edge_sim) (position edge_agent) 1 = Fin 1"
  "right_of_edge (obstacles edge_sim) (position edge_agent) 1"
  "\<not> right_of_edge (obstacles edge_sim) (position edge_agent) 0"
  by (simp_all add: edge_distSq_def right_of_edge_def edge_points_example edge_agent_def
      new_Agent_def RVOMath_leftOf_def RVOMath_distSqPointLineSegment_def vec_defs Let_def)

lemma edge_computeNeighbors:
  "computeNeighbors edge_sim 0 edge_agent = Some edge_result"
proof -
  have "RVOMath_sqr (timeHorizonObst edge_agent * maxSpeed edge_agent + radius edge_agent)
        = Fin 100"
    by (simp add: edge_agent_def new_Agent_def vec_defs)
  moreover have "edge_agent \<lparr> obstacleNeighbors := [] \<rparr> = edge_agent"
    by (simp add: edge_agent_def new_Agent_def)
  ultimately show ?thesis
    by (simp add: computeNeighbors_def Let_def edge_query)
      (simp add: edge_result_def edge_agent_def new_Agent_def)
qed

lemma pair_insert:
  "insertAgentNeighbor pair_store 0 (pair_store ! 0) 1 (Fin 225)
   = Some ((pair_store ! 0) \<lparr> agentNeighbors := [(Fin 9, 1)] \<rparr>, Fin 9)"
  by (simp add: insertAgentNeighbor_def pair_store_def deref_def new_Agent_def vec_defs Let_def)

lemma insertAgentNeighbor_range:
  "insertAgentNeighbor store self this other r0 = Some (this', r1) \<Longrightarrow>
     r1 = (if self \<noteq> other
              \<and> RVOMath_absSq (Vector2_subtract (position this) (position (store ! other))) < r0
              \<and> int (length (agentNeighbors this')) = maxNeighbors this
           then fst (agentNeighbors this' ! (length (agentNeighbors this') - 1))
           else r0)"
  by (auto simp: insertAgentNeighbor_def deref_def Let_def
      split: if_splits option.splits prod.splits)

text \<open>
  Claim C7, as amended. The claim as stated fails for an edge that the agent sees from
  the left or along its line: the node is reached and the edge is within the range, but
  it is not inserted; see the counterexample below. An obstacle query adds to the
  obstacle neighbours of the agent exactly the edges of the reached nodes for which the
  agent is strictly on the right of the line of the edge and both the squared distance
  to the line, as the query computes it, and the squared distance to the segment are
  below the range that was passed in, which is the same at every node; nothing is
  removed and the position is unchanged. \<^verbatim>\<open>insertObstacleNeighbor\<close> has no range to hand
  back. \<^verbatim>\<open>insertAgentNeighbor\<close>, in contrast, hands back the last key of the list whenever
  it has inserted an entry and the list is full, and the range it was given otherwise.
\<close>

theorem obstacle_range_fixed:
  "(computeObstacleNeighbors sim agent rangeSq = Some agent' \<longrightarrow>
      position agent' = position agent
      \<and> set (obstacleNeighbors agent') = set (obstacleNeighbors agent)
          \<union> (\<lambda>e. (edge_distSq (obstacles sim) (position agent) e, e))
            ` {e. e \<in> set (reached (obstacles sim) (position agent) rangeSq
                              (obstacleTree (kdTree sim)))
                 \<and> inserted_edge (obstacles sim) (position agent) rangeSq e}
      \<and> length (obstacleNeighbors agent') = length (obstacleNeighbors agent)
          + length (filter (inserted_edge (obstacles sim) (position agent) rangeSq)
                      (reached (obstacles sim) (position agent) rangeSq
                         (obstacleTree (kdTree sim)))))
   \<and> (insertAgentNeighbor store self this other r0 = Some (this', r1) \<longrightarrow>
        r1 = (if self \<noteq> other
                 \<and> RVOMath_absSq (Vector2_subtract (position this) (position (store ! other)))
                     < r0
                 \<and> int (length (agentNeighbors this')) = maxNeighbors this
              then fst (agentNeighbors this' ! (length (agentNeighbors this') - 1))
              else r0))"
proof (intro conjI impI)
  assume "computeObstacleNeighbors sim agent rangeSq = Some agent'"
  then have q: "queryObstacleTreeRecursive (obstacles sim) agent rangeSq
                  (obstacleTree (kdTree sim)) = Some agent'"
    by (simp add: computeObstacleNeighbors_def)
  from queryObstacleTreeRecursive_effect [OF q]
  show "position agent' = position agent"
    and "set (obstacleNeighbors agent') = set (obstacleNeighbors agent)
          \<union> (\<lambda>e. (edge_distSq (obstacles sim) (position agent) e, e))
            ` {e. e \<in> set (reached (obstacles sim) (position agent) rangeSq
                              (obstacleTree (kdTree sim)))
                 \<and> inserted_edge (obstacles sim) (position agent) rangeSq e}"
    and "length (obstacleNeighbors agent') = length (obstacleNeighbors agent)
          + length (filter (inserted_edge (obstacles sim) (position agent) rangeSq)
                      (reached (obstacles sim) (position agent) rangeSq
                         (obstacleTree (kdTree sim))))"
    by blast+
next
  assume "insertAgentNeighbor store self this other r0 = Some (this', r1)"
  then show "r1 = (if self \<noteq> other
                 \<and> RVOMath_absSq (Vector2_subtract (position this) (position (store ! other)))
                     < r0
                 \<and> int (length (agentNeighbors this')) = maxNeighbors this
              then fst (agentNeighbors this' ! (length (agentNeighbors this') - 1))
              else r0)"
    by (rule insertAgentNeighbor_range)
qed

theorem obstacle_range_fixed_witness:
  "computeObstacleNeighbors edge_sim edge_agent (Fin 100) = Some edge_result
   \<and> reached (obstacles edge_sim) (position edge_agent) (Fin 100)
       (obstacleTree (kdTree edge_sim)) = [1, 0]
   \<and> filter (inserted_edge (obstacles edge_sim) (position edge_agent) (Fin 100)) [1, 0] = [1]
   \<and> length (obstacleNeighbors edge_result) = 1
   \<and> insertAgentNeighbor pair_store 0 (pair_store ! 0) 1 (Fin 225)
       = Some ((pair_store ! 0) \<lparr> agentNeighbors := [(Fin 9, 1)] \<rparr>, Fin 9)
   \<and> RVOMath_absSq (Vector2_subtract (position (pair_store ! 0)) (position (pair_store ! 1)))
       = Fin 9
   \<and> int (length (agentNeighbors ((pair_store ! 0) \<lparr> agentNeighbors := [(Fin 9, 1)] \<rparr>)))
       = maxNeighbors (pair_store ! 0)
   \<and> Fin 9 < Fin 225"
proof -
  have p: "position edge_agent = Vector2 (Fin 0.5) (Fin 1)"
    by (simp add: edge_agent_def new_Agent_def)
  have f: "filter (inserted_edge (obstacles edge_sim) (position edge_agent) (Fin 100)) [1, 0]
           = [1]"
    using edge_distances
    by (simp add: inserted_edge_def edge_distSqLine_def edge_points_example p
        RVOMath_leftOf_def vec_defs)
  have m: "int (length (agentNeighbors ((pair_store ! 0) \<lparr> agentNeighbors := [(Fin 9, 1)] \<rparr>)))
       = maxNeighbors (pair_store ! 0)"
    by (simp add: pair_store_def new_Agent_def)
  have d: "RVOMath_absSq (Vector2_subtract (position (pair_store ! 0))
             (position (pair_store ! 1))) = Fin 9"
    by (simp add: pair_store_def new_Agent_def vec_defs)
  have n: "obstacleNeighbors edge_agent = []"
    by (simp add: edge_agent_def new_Agent_def)
  note t = obstacle_range_fixed [where sim = edge_sim and agent = edge_agent
      and rangeSq = "Fin 100" and agent' = edge_result
      and store = pair_store and self = 0 and this = "pair_store ! 0"
      and other = 1 and ?r0.0 = "Fin 225"
      and this' = "(pair_store ! 0) \<lparr> agentNeighbors := [(Fin 9, 1)] \<rparr>"
      and ?r1.0 = "Fin 9"]
  from t edge_query have "length (obstacleNeighbors edge_result) = length (obstacleNeighbors edge_agent)
          + length (filter (inserted_edge (obstacles edge_sim) (position edge_agent) (Fin 100))
                      (reached (obstacles edge_sim) (position edge_agent) (Fin 100)
                         (obstacleTree (kdTree edge_sim))))"
    by blast
  then have l: "length (obstacleNeighbors edge_result) = 1"
    by (simp only: edge_reached f n) simp
  from edge_query edge_reached f l pair_insert m d
  show ?thesis by simp
qed

text \<open>
  The agent is above a wall whose first edge it sees from the left. Both edges are
  reached and both are at squared distance 1, below the range 100; only the second
  edge becomes an obstacle neighbour.
\<close>

theorem obstacle_range_counterexample:
  "RVOMath_sqr (timeHorizonObst edge_agent * maxSpeed edge_agent + radius edge_agent) = Fin 100
   \<and> computeNeighbors edge_sim 0 edge_agent = Some edge_result
   \<and> reached (obstacles edge_sim) (position edge_agent) (Fin 100)
       (obstacleTree (kdTree edge_sim)) = [1, 0]
   \<and> edge_distSq (obstacles edge_sim) (position edge_agent) 0 = Fin 1
   \<and> Fin 1 < Fin 100
   \<and> map snd (obstacleNeighbors edge_result) = [1]"
  using edge_computeNeighbors edge_reached edge_distances(1)
  by (simp add: edge_result_def edge_agent_def new_Agent_def vec_defs)
























lemma pair_mono:
  "l \<le> l' \<Longrightarrow> r \<le> r' \<Longrightarrow>
     \<not> FloatPair_lessThan (FloatPair (max l' r') (min l' r')) (FloatPair (max l r) (min l r))"
  by (auto simp: FloatPair_lessThan_def)

lemma lessThan_trans:
  "FloatPair_lessThan p q \<Longrightarrow> FloatPair_lessThan q s \<Longrightarrow> FloatPair_lessThan p s"
  by (auto simp: FloatPair_lessThan_def)

lemma lessThan_ge_trans:
  "\<not> FloatPair_lessThan p q \<Longrightarrow> \<not> FloatPair_lessThan q s \<Longrightarrow> \<not> FloatPair_lessThan p s"
  by (auto simp: FloatPair_lessThan_def)

lemma lessThan_ge_trans':
  "FloatPair_lessThan q s \<Longrightarrow> \<not> FloatPair_lessThan p s \<Longrightarrow> FloatPair_lessThan q p"
  by (auto simp: FloatPair_lessThan_def)

lemma lessThan_irrefl: "\<not> FloatPair_lessThan p p"
  by (auto simp: FloatPair_lessThan_def)

lemma count_sides_counts:
  assumes "deref_opt obs (obstacles' ! i) = Some obstacleI1"
  shows "count_sides obs obstacles' i obstacleI1 minLeft minRight js (l, r) = Some (l', r') \<Longrightarrow>
     (l' = l + length (filter (counts_left obs obstacles' i) js)
      \<and> r' = r + length (filter (counts_right obs obstacles' i) js))
     \<or> (FloatPair_greaterThanOrEqual (FloatPair (max l' r') (min l' r'))
            (FloatPair (max minLeft minRight) (min minLeft minRight))
        \<and> l' \<le> l + length (filter (counts_left obs obstacles' i) js)
        \<and> r' \<le> r + length (filter (counts_right obs obstacles' i) js))"
proof (induction js arbitrary: l r)
  case Nil
  then show ?case by simp
next
  case (Cons j js)
  show ?case
  proof (cases "i = j")
    case True
    with Cons.prems Cons.IH [of l r] show ?thesis
      by (simp add: counts_left_def counts_right_def)
  next
    case False
    from Cons.prems False obtain obstacleJ1 obstacleI2 obstacleJ2 where
      d: "deref_opt obs (obstacles' ! j) = Some obstacleJ1"
        "deref_opt obs (next_o obstacleI1) = Some obstacleI2"
        "deref_opt obs (next_o obstacleJ1) = Some obstacleJ2"
      by (auto split: option.splits)
    define dl where "dl = (if counts_left obs obstacles' i j then 1 else 0 :: nat)"
    define dr where "dr = (if counts_right obs obstacles' i j then 1 else 0 :: nat)"
    from Cons.prems False d
    have step: "(if FloatPair_greaterThanOrEqual
                      (FloatPair (max (l + dl) (r + dr)) (min (l + dl) (r + dr)))
                      (FloatPair (max minLeft minRight) (min minLeft minRight))
                 then Some (l + dl, r + dr)
                 else count_sides obs obstacles' i obstacleI1 minLeft minRight js
                        (l + dl, r + dr)) = Some (l', r')"
      by (auto simp: dl_def dr_def counts_left_def counts_right_def classify_def assms Let_def
          split: if_splits)
    have f: "length (filter (counts_left obs obstacles' i) (j # js))
               = dl + length (filter (counts_left obs obstacles' i) js)"
      "length (filter (counts_right obs obstacles' i) (j # js))
               = dr + length (filter (counts_right obs obstacles' i) js)"
      by (simp_all add: dl_def dr_def)
    show ?thesis
    proof (cases "FloatPair_greaterThanOrEqual
                      (FloatPair (max (l + dl) (r + dr)) (min (l + dl) (r + dr)))
                      (FloatPair (max minLeft minRight) (min minLeft minRight))")
      case True
      with step have "l' = l + dl" "r' = r + dr" by simp_all
      with True show ?thesis unfolding f by simp
    next
      case False
      with step have "count_sides obs obstacles' i obstacleI1 minLeft minRight js
                        (l + dl, r + dr) = Some (l', r')" by simp
      from Cons.IH [OF this] show ?thesis unfolding f by (simp add: ac_simps)
    qed
  qed
qed

lemma count_sides_decide:
  assumes "deref_opt obs (obstacles' ! i) = Some obstacleI1"
    and "count_sides obs obstacles' i obstacleI1 minLeft minRight [0 ..< length obstacles'] (0, 0)
         = Some (l, r)"
  shows "FloatPair_lessThan (FloatPair (max l r) (min l r))
           (FloatPair (max minLeft minRight) (min minLeft minRight))
         \<Longrightarrow> l = L_count obs obstacles' i \<and> r = R_count obs obstacles' i"
    and "\<not> FloatPair_lessThan (FloatPair (max l r) (min l r))
             (FloatPair (max minLeft minRight) (min minLeft minRight))
         \<Longrightarrow> \<not> FloatPair_lessThan (split_pair obs obstacles' i)
                 (FloatPair (max minLeft minRight) (min minLeft minRight))"
proof -
  from count_sides_counts [OF assms]
  have c: "(l = L_count obs obstacles' i \<and> r = R_count obs obstacles' i)
     \<or> (\<not> FloatPair_lessThan (FloatPair (max l r) (min l r))
            (FloatPair (max minLeft minRight) (min minLeft minRight))
        \<and> l \<le> L_count obs obstacles' i \<and> r \<le> R_count obs obstacles' i)"
    by (simp add: L_count_def R_count_def FloatPair_greaterThanOrEqual_def)
  show "l = L_count obs obstacles' i \<and> r = R_count obs obstacles' i"
    if "FloatPair_lessThan (FloatPair (max l r) (min l r))
           (FloatPair (max minLeft minRight) (min minLeft minRight))"
    using c that by blast
  show "\<not> FloatPair_lessThan (split_pair obs obstacles' i)
                 (FloatPair (max minLeft minRight) (min minLeft minRight))"
    if n: "\<not> FloatPair_lessThan (FloatPair (max l r) (min l r))
             (FloatPair (max minLeft minRight) (min minLeft minRight))"
  proof -
    from c have "l \<le> L_count obs obstacles' i \<and> r \<le> R_count obs obstacles' i" by auto
    then have "\<not> FloatPair_lessThan (split_pair obs obstacles' i) (FloatPair (max l r) (min l r))"
      unfolding split_pair_def by (simp add: pair_mono)
    from lessThan_ge_trans [OF this n] show ?thesis .
  qed
qed

lemma select_split_first_min:
  "select_split obs obstacles' is (k, ml, mr) = Some (k', ml', mr') \<Longrightarrow>
     ((k', ml', mr') = (k, ml, mr)
      \<and> (\<forall>i \<in> set is. \<not> FloatPair_lessThan (split_pair obs obstacles' i)
                            (FloatPair (max ml mr) (min ml mr))))
     \<or> (\<exists>xs ys. is = xs @ k' # ys
          \<and> ml' = L_count obs obstacles' k' \<and> mr' = R_count obs obstacles' k'
          \<and> FloatPair_lessThan (split_pair obs obstacles' k') (FloatPair (max ml mr) (min ml mr))
          \<and> (\<forall>i \<in> set xs. FloatPair_lessThan (split_pair obs obstacles' k')
                                (split_pair obs obstacles' i))
          \<and> (\<forall>i \<in> set ys. \<not> FloatPair_lessThan (split_pair obs obstacles' i)
                                  (split_pair obs obstacles' k')))"
proof (induction "is" arbitrary: k ml mr)
  case Nil
  then show ?case by simp
next
  case (Cons i "is")
  let ?sp = "split_pair obs obstacles'"
  let ?B = "FloatPair (max ml mr) (min ml mr)"
  from Cons.prems obtain obstacleI1 l r where
    d: "deref_opt obs (obstacles' ! i) = Some obstacleI1"
    and c: "count_sides obs obstacles' i obstacleI1 ml mr [0 ..< length obstacles'] (0, 0)
            = Some (l, r)"
    and s: "select_split obs obstacles' is
              (if FloatPair_lessThan (FloatPair (max l r) (min l r)) ?B
               then (i, l, r) else (k, ml, mr)) = Some (k', ml', mr')"
    by (auto split: option.splits)
  show ?case
  proof (cases "FloatPair_lessThan (FloatPair (max l r) (min l r)) ?B")
    case True
    from count_sides_decide(1) [OF d c True]
    have lr: "l = L_count obs obstacles' i" "r = R_count obs obstacles' i" by simp_all
    then have sp: "FloatPair (max l r) (min l r) = ?sp i" by (simp add: split_pair_def)
    from True sp have less: "FloatPair_lessThan (?sp i) ?B" by simp
    from s True have "select_split obs obstacles' is (i, l, r) = Some (k', ml', mr')" by simp
    from Cons.IH [OF this, unfolded sp]
    consider (same) "(k', ml', mr') = (i, l, r)"
        "\<forall>j \<in> set is. \<not> FloatPair_lessThan (?sp j) (?sp i)"
      | (later) xs ys where "is = xs @ k' # ys"
        "ml' = L_count obs obstacles' k'" "mr' = R_count obs obstacles' k'"
        "FloatPair_lessThan (?sp k') (?sp i)"
        "\<forall>j \<in> set xs. FloatPair_lessThan (?sp k') (?sp j)"
        "\<forall>j \<in> set ys. \<not> FloatPair_lessThan (?sp j) (?sp k')"
      by blast
    then show ?thesis
    proof cases
      case same
      then have "i # is = [] @ k' # is" by simp
      with same lr less show ?thesis by (intro disjI2 exI [of _ "[]"] exI [of _ "is"]) simp
    next
      case later
      from later(1) have "i # is = (i # xs) @ k' # ys" by simp
      moreover from lessThan_trans [OF later(4) less]
      have "FloatPair_lessThan (?sp k') ?B" .
      ultimately show ?thesis
        using later by (intro disjI2 exI [of _ "i # xs"] exI [of _ ys]) simp
    qed
  next
    case False
    from count_sides_decide(2) [OF d c False]
    have ge: "\<not> FloatPair_lessThan (?sp i) ?B" .
    from s False have "select_split obs obstacles' is (k, ml, mr) = Some (k', ml', mr')" by simp
    from Cons.IH [OF this]
    consider (same) "(k', ml', mr') = (k, ml, mr)"
        "\<forall>j \<in> set is. \<not> FloatPair_lessThan (?sp j) ?B"
      | (later) xs ys where "is = xs @ k' # ys"
        "ml' = L_count obs obstacles' k'" "mr' = R_count obs obstacles' k'"
        "FloatPair_lessThan (?sp k') ?B"
        "\<forall>j \<in> set xs. FloatPair_lessThan (?sp k') (?sp j)"
        "\<forall>j \<in> set ys. \<not> FloatPair_lessThan (?sp j) (?sp k')"
      by blast
    then show ?thesis
    proof cases
      case same
      with ge show ?thesis by simp
    next
      case later
      from later(1) have "i # is = (i # xs) @ k' # ys" by simp
      moreover from lessThan_ge_trans' [OF later(4) ge]
      have "FloatPair_lessThan (?sp k') (?sp i)" .
      ultimately show ?thesis
        using later by (intro disjI2 exI [of _ "i # xs"] exI [of _ ys]) simp
    qed
  qed
qed

lemma upt_split:
  assumes "[0 ..< n] = xs @ k # ys"
  shows "k < n \<and> set xs = {..< k} \<and> set ys = {k <..< n}"
proof -
  have l: "length xs < n" using arg_cong [OF assms, of length] by simp
  have "[0 ..< n] ! length xs = k" unfolding assms by simp
  with l have k: "length xs = k" by simp
  have "xs = take k [0 ..< n]" unfolding assms using k by simp
  moreover have "ys = drop (Suc k) [0 ..< n]" unfolding assms using k by simp
  ultimately show ?thesis using l k by (auto simp: take_upt drop_upt)
qed

lemma L_count_less: "i < length obstacles' \<Longrightarrow> L_count obs obstacles' i < length obstacles'"
  using length_filter_less [of i "[0 ..< length obstacles']" "counts_left obs obstacles' i"]
  by (simp add: L_count_def counts_left_def)

lemma R_count_less: "i < length obstacles' \<Longrightarrow> R_count obs obstacles' i < length obstacles'"
  using length_filter_less [of i "[0 ..< length obstacles']" "counts_right obs obstacles' i"]
  by (simp add: R_count_def counts_right_def)

lemma split_pair_less_initial:
  "i < length obstacles' \<Longrightarrow>
     FloatPair_lessThan (split_pair obs obstacles' i)
       (FloatPair (length obstacles') (length obstacles'))"
  using L_count_less [of i obstacles' obs] R_count_less [of i obstacles' obs]
  by (simp add: split_pair_def FloatPair_lessThan_def)

lemma select_split_minimises:
  assumes "select_split obs obstacles' [0 ..< length obstacles']
             (0, length obstacles', length obstacles') = Some (k, ml, mr)"
    and "obstacles' \<noteq> []"
  shows "k < length obstacles'"
    and "ml = L_count obs obstacles' k" and "mr = R_count obs obstacles' k"
    and "\<forall>i < length obstacles'.
           \<not> FloatPair_lessThan (split_pair obs obstacles' i) (split_pair obs obstacles' k)"
    and "\<forall>i < k. FloatPair_lessThan (split_pair obs obstacles' k) (split_pair obs obstacles' i)"
proof -
  let ?n = "length obstacles'"
  let ?sp = "split_pair obs obstacles'"
  from assms(2) have z: "0 \<in> set [0 ..< ?n]" by simp
  have "\<not> (\<forall>i \<in> set [0 ..< ?n]. \<not> FloatPair_lessThan (?sp i) (FloatPair ?n ?n))"
    using z split_pair_less_initial [of 0 obstacles' obs] assms(2) by auto
  with select_split_first_min [OF assms(1)] obtain xs ys where
    e: "[0 ..< ?n] = xs @ k # ys"
    and m: "ml = L_count obs obstacles' k" "mr = R_count obs obstacles' k"
    and x: "\<forall>i \<in> set xs. FloatPair_lessThan (?sp k) (?sp i)"
    and y: "\<forall>i \<in> set ys. \<not> FloatPair_lessThan (?sp i) (?sp k)"
    by auto
  from upt_split [OF e] have k: "k < ?n" and sx: "set xs = {..< k}" and sy: "set ys = {k <..< ?n}"
    by simp_all
  show "k < ?n" by (rule k)
  show "ml = L_count obs obstacles' k" "mr = R_count obs obstacles' k" by (rule m)+
  show first: "\<forall>i < k. FloatPair_lessThan (?sp k) (?sp i)" using x sx by auto
  show "\<forall>i < ?n. \<not> FloatPair_lessThan (?sp i) (?sp k)"
  proof (intro allI impI)
    fix i assume "i < ?n"
    consider "i < k" | "i = k" | "k < i" by linarith
    then show "\<not> FloatPair_lessThan (?sp i) (?sp k)"
    proof cases
      case 1
      with first have "FloatPair_lessThan (?sp k) (?sp i)" by simp
      then show ?thesis by (auto simp: FloatPair_lessThan_def)
    next
      case 2
      then show ?thesis by (simp add: lessThan_irrefl)
    next
      case 3
      with \<open>i < ?n\<close> sy y show ?thesis by auto
    qed
  qed
qed

lemma fold_first_min:
  "fold (\<lambda>i (optimalSplit, best).
           if FloatPair_lessThan (f i) best then (i, f i) else (optimalSplit, best)) is (k, b)
   = (k', b') \<Longrightarrow>
     (k' = k \<and> b' = b \<and> (\<forall>i \<in> set is. \<not> FloatPair_lessThan (f i) b))
     \<or> (\<exists>xs ys. is = xs @ k' # ys \<and> b' = f k' \<and> FloatPair_lessThan (f k') b
          \<and> (\<forall>i \<in> set xs. FloatPair_lessThan (f k') (f i))
          \<and> (\<forall>i \<in> set ys. \<not> FloatPair_lessThan (f i) (f k')))"
proof (induction "is" arbitrary: k b)
  case Nil
  then show ?case by simp
next
  case (Cons i "is")
  let ?step = "\<lambda>i (optimalSplit, best).
           if FloatPair_lessThan (f i) best then (i, f i) else (optimalSplit, best)"
  show ?case
  proof (cases "FloatPair_lessThan (f i) b")
    case True
    with Cons.prems have "fold ?step is (i, f i) = (k', b')" by simp
    from Cons.IH [OF this]
    consider (same) "k' = i" "b' = f i" "\<forall>j \<in> set is. \<not> FloatPair_lessThan (f j) (f i)"
      | (later) xs ys where "is = xs @ k' # ys" "b' = f k'" "FloatPair_lessThan (f k') (f i)"
        "\<forall>j \<in> set xs. FloatPair_lessThan (f k') (f j)"
        "\<forall>j \<in> set ys. \<not> FloatPair_lessThan (f j) (f k')"
      by blast
    then show ?thesis
    proof cases
      case same
      with True show ?thesis by (intro disjI2 exI [of _ "[]"] exI [of _ "is"]) simp
    next
      case later
      from lessThan_trans [OF later(3) True] have "FloatPair_lessThan (f k') b" .
      with later show ?thesis by (intro disjI2 exI [of _ "i # xs"] exI [of _ ys]) simp
    qed
  next
    case False
    with Cons.prems have "fold ?step is (k, b) = (k', b')" by simp
    from Cons.IH [OF this]
    consider (same) "k' = k" "b' = b" "\<forall>j \<in> set is. \<not> FloatPair_lessThan (f j) b"
      | (later) xs ys where "is = xs @ k' # ys" "b' = f k'" "FloatPair_lessThan (f k') b"
        "\<forall>j \<in> set xs. FloatPair_lessThan (f k') (f j)"
        "\<forall>j \<in> set ys. \<not> FloatPair_lessThan (f j) (f k')"
      by blast
    then show ?thesis
    proof cases
      case same
      with False show ?thesis by simp
    next
      case later
      from lessThan_ge_trans' [OF later(3) False] have "FloatPair_lessThan (f k') (f i)" .
      with later show ?thesis by (intro disjI2 exI [of _ "i # xs"] exI [of _ ys]) simp
    qed
  qed
qed

lemma select_full_first_min:
  assumes "obstacles' \<noteq> []"
  shows "select_full obs obstacles' < length obstacles'
    \<and> (\<forall>i < length obstacles'.
           \<not> FloatPair_lessThan (split_pair obs obstacles' i)
               (split_pair obs obstacles' (select_full obs obstacles')))
    \<and> (\<forall>i < select_full obs obstacles'.
           FloatPair_lessThan (split_pair obs obstacles' (select_full obs obstacles'))
             (split_pair obs obstacles' i))"
proof -
  let ?n = "length obstacles'"
  let ?sp = "split_pair obs obstacles'"
  let ?step = "\<lambda>i (optimalSplit, best).
           if FloatPair_lessThan (?sp i) best then (i, ?sp i) else (optimalSplit, best)"
  obtain k b where f: "fold ?step [0 ..< ?n] (0, FloatPair ?n ?n) = (k, b)"
    by (cases "fold ?step [0 ..< ?n] (0, FloatPair ?n ?n)")
  then have sf: "select_full obs obstacles' = k" by (simp add: select_full_def)
  from assms have "0 \<in> set [0 ..< ?n]" by simp
  then have "\<not> (\<forall>i \<in> set [0 ..< ?n]. \<not> FloatPair_lessThan (?sp i) (FloatPair ?n ?n))"
    using split_pair_less_initial [of 0 obstacles' obs] assms by auto
  note nf = this
  from fold_first_min [of ?sp "[0 ..< ?n]" 0 "FloatPair ?n ?n" k b, OF f]
  have "\<exists>xs ys. [0 ..< ?n] = xs @ k # ys
          \<and> b = ?sp k \<and> FloatPair_lessThan (?sp k) (FloatPair ?n ?n)
          \<and> (\<forall>i \<in> set xs. FloatPair_lessThan (?sp k) (?sp i))
          \<and> (\<forall>i \<in> set ys. \<not> FloatPair_lessThan (?sp i) (?sp k))"
    using nf by (elim disjE) (simp, assumption)
  then obtain xs ys where
    e: "[0 ..< ?n] = xs @ k # ys"
    and x: "\<forall>i \<in> set xs. FloatPair_lessThan (?sp k) (?sp i)"
    and y: "\<forall>i \<in> set ys. \<not> FloatPair_lessThan (?sp i) (?sp k)"
    by blast
  from upt_split [OF e] have k: "k < ?n" and sx: "set xs = {..< k}" and sy: "set ys = {k <..< ?n}"
    by simp_all
  have first: "\<forall>i < k. FloatPair_lessThan (?sp k) (?sp i)" using x sx by auto
  have "\<not> FloatPair_lessThan (?sp i) (?sp k)" if "i < ?n" for i
  proof -
    consider "i < k" | "i = k" | "k < i" by linarith
    then show ?thesis
    proof cases
      case 1
      with first have "FloatPair_lessThan (?sp k) (?sp i)" by simp
      then show ?thesis by (auto simp: FloatPair_lessThan_def)
    next
      case 2
      then show ?thesis by (simp add: lessThan_irrefl)
    next
      case 3
      with that sy y show ?thesis by auto
    qed
  qed
  then have "\<forall>i < ?n. \<not> FloatPair_lessThan (?sp i) (?sp k)" by simp
  with k first show ?thesis unfolding sf by (intro conjI)
qed

lemma select_split_full:
  assumes "select_split obs obstacles' [0 ..< length obstacles']
             (0, length obstacles', length obstacles') = Some (k, ml, mr)"
    and "obstacles' \<noteq> []"
  shows "k = select_full obs obstacles'"
proof -
  let ?f = "select_full obs obstacles'"
  note a = select_split_minimises [OF assms]
  note b = select_full_first_min [OF assms(2), of obs]
  from b have b1: "?f < length obstacles'"
    and b2: "\<forall>i < length obstacles'. \<not> FloatPair_lessThan (split_pair obs obstacles' i)
               (split_pair obs obstacles' ?f)"
    and b3: "\<forall>i < ?f. FloatPair_lessThan (split_pair obs obstacles' ?f)
               (split_pair obs obstacles' i)"
    by simp_all
  have "\<not> k < ?f"
  proof
    assume "k < ?f"
    with b3 have "FloatPair_lessThan (split_pair obs obstacles' ?f) (split_pair obs obstacles' k)"
      by simp
    with a(4) b1 show False by simp
  qed
  moreover have "\<not> ?f < k"
  proof
    assume "?f < k"
    with a(5) have "FloatPair_lessThan (split_pair obs obstacles' k) (split_pair obs obstacles' ?f)"
      by simp
    with b2 a(1) show False by simp
  qed
  ultimately show ?thesis by simp
qed

lemma walls_obstacles: "obstacles walls_sim = walls_vertices"
  by (simp add: walls_sim_def addObstacle_def new_Simulator_def clear_def Let_def upt_rec
      addObstacle_step_def new_Obstacle_def vec_defs wall_vertex_def walls_vertices_def)

lemmas tree_defs =
  walls_vertices_def deref_opt_def deref_def wall_vertex_def RVOMath_leftOf_def vec_defs RVO_EPSILON_def
  FloatPair_greaterThanOrEqual_def FloatPair_lessThan_def array_set_def Let_def upt_rec

lemma walls_select:
  "select_split walls_vertices (map Some [0 ..< 6]) [0 ..< 6] (0, 6, 6) = Some (2, 3, 2)"
  by (simp add: tree_defs)

lemma walls_split:
  "split_obstacles walls_sim (map Some [0 ..< 6])
   = Some (walls_sim, 2, [Some 3, Some 4, Some 5], [Some 0, Some 1])"
  unfolding split_obstacles_def length_map length_upt diff_zero walls_obstacles walls_select
  by (simp add: walls_obstacles tree_defs) (simp add: eval_nat_numeral)

lemma walls_split_left:
  "split_obstacles walls_sim [Some 3, Some 4, Some 5] = Some (walls_sim, 4, [Some 5], [Some 3])"
  by (simp add: split_obstacles_def walls_obstacles tree_defs)

lemma walls_split_right:
  "split_obstacles walls_sim [Some 0, Some 1] = Some (walls_sim, 0, [Some 1], [])"
  by (simp add: split_obstacles_def walls_obstacles tree_defs)

lemma walls_split_leaf:
  "k < 6 \<Longrightarrow> split_obstacles walls_sim [Some k] = Some (walls_sim, k, [], [])"
  by (simp add: split_obstacles_def walls_obstacles tree_defs)

lemma walls_build:
  "buildObstacleTreeRecursive walls_sim (map Some [0 ..< 6]) = Some (walls_sim, walls_tree)"
proof -
  have e: "buildObstacleTreeRecursive walls_sim [] = Some (walls_sim, Null)"
    by (simp add: buildObstacleTreeRecursive.simps)
  have l: "buildObstacleTreeRecursive walls_sim [Some k]
           = Some (walls_sim, ObstacleTreeNode k Null Null)" if "k < 6" for k
    by (subst buildObstacleTreeRecursive.simps) (simp add: walls_split_leaf [OF that] e)
  have a: "buildObstacleTreeRecursive walls_sim [Some 3, Some 4, Some 5]
           = Some (walls_sim, ObstacleTreeNode 4 (ObstacleTreeNode 5 Null Null)
                                (ObstacleTreeNode 3 Null Null))"
    by (subst buildObstacleTreeRecursive.simps, subst walls_split_left) (simp add: l)
  have b: "buildObstacleTreeRecursive walls_sim [Some 0, Some 1]
           = Some (walls_sim, ObstacleTreeNode 0 (ObstacleTreeNode 1 Null Null) Null)"
    by (subst buildObstacleTreeRecursive.simps, subst walls_split_right) (simp add: l e)
  show ?thesis
    by (subst buildObstacleTreeRecursive.simps, subst walls_split)
      (simp add: a b [unfolded One_nat_def] walls_tree_def)
qed

lemma walls_counts:
  "map (\<lambda>i. (L_count (obstacles walls_sim) (map Some [0 ..< 6]) i,
             R_count (obstacles walls_sim) (map Some [0 ..< 6]) i)) [0 ..< 6]
   = [(5, 0), (1, 4), (3, 2), (3, 2), (1, 4), (5, 0)]"
  unfolding walls_obstacles
  by (simp add: L_count_def R_count_def counts_left_def counts_right_def classify_def tree_defs)

text \<open>
  Claim C5. When \<^verbatim>\<open>buildObstacleTreeRecursive\<close> returns for a list of edges that is not
  empty, the node it returns holds the vertex at a place \<open>k\<close> of the list whose pair
  \<open>(max(L\<^sub>k, R\<^sub>k), min(L\<^sub>k, R\<^sub>k))\<close> is lexicographically least among the pairs of all
  places, \<open>L\<^sub>i\<close> and \<open>R\<^sub>i\<close> counting the other edges that the builder classifies on the
  left and on the right of the line of edge \<open>i\<close>, an edge on both sides in both counts.
  It is the first such place, and it is the place that the selection with every
  candidate counted in full, without the early exit of the inner loop, chooses.
\<close>

theorem splitter_minimises:
  "buildObstacleTreeRecursive sim obstacles' = Some (sim', node) \<and> obstacles' \<noteq> [] \<longrightarrow>
     (\<exists>k I1 l r. node = ObstacleTreeNode I1 l r
        \<and> k < length obstacles' \<and> obstacles' ! k = Some I1
        \<and> (\<forall>i < length obstacles'.
              max (L_count (obstacles sim) obstacles' k) (R_count (obstacles sim) obstacles' k)
                < max (L_count (obstacles sim) obstacles' i) (R_count (obstacles sim) obstacles' i)
              \<or> max (L_count (obstacles sim) obstacles' k) (R_count (obstacles sim) obstacles' k)
                  = max (L_count (obstacles sim) obstacles' i)
                      (R_count (obstacles sim) obstacles' i)
                \<and> min (L_count (obstacles sim) obstacles' k)
                      (R_count (obstacles sim) obstacles' k)
                  \<le> min (L_count (obstacles sim) obstacles' i)
                       (R_count (obstacles sim) obstacles' i))
        \<and> (\<forall>i < k. FloatPair_lessThan (split_pair (obstacles sim) obstacles' k)
                       (split_pair (obstacles sim) obstacles' i))
        \<and> k = select_full (obstacles sim) obstacles')"
proof (intro impI, elim conjE)
  assume b: "buildObstacleTreeRecursive sim obstacles' = Some (sim', node)"
    and ne: "obstacles' \<noteq> []"
  let ?n = "length obstacles'"
  let ?obs = "obstacles sim"
  from b ne obtain sim1 I1 lo ro l r where
    s: "split_obstacles sim obstacles' = Some (sim1, I1, lo, ro)"
    and n: "node = ObstacleTreeNode I1 l r"
    by (subst (asm) buildObstacleTreeRecursive.simps) (auto split: option.splits)
  from s have "\<exists>k ml mr.
      select_split ?obs obstacles' [0 ..< ?n] (0, ?n, ?n) = Some (k, ml, mr)
      \<and> obstacles' ! k = Some I1"
    by (auto simp: split_obstacles_def Let_def split: option.splits prod.splits)
  then obtain k ml mr where
    sel: "select_split ?obs obstacles' [0 ..< ?n] (0, ?n, ?n) = Some (k, ml, mr)"
    and k: "obstacles' ! k = Some I1" by blast
  note m = select_split_minimises [OF sel ne]
  have lex: "max (L_count ?obs obstacles' k) (R_count ?obs obstacles' k)
                < max (L_count ?obs obstacles' i) (R_count ?obs obstacles' i)
              \<or> max (L_count ?obs obstacles' k) (R_count ?obs obstacles' k)
                  = max (L_count ?obs obstacles' i) (R_count ?obs obstacles' i)
                \<and> min (L_count ?obs obstacles' k) (R_count ?obs obstacles' k)
                  \<le> min (L_count ?obs obstacles' i) (R_count ?obs obstacles' i)"
    if "i < ?n" for i
  proof -
    from m(4) that have "\<not> FloatPair_lessThan (split_pair ?obs obstacles' i)
        (split_pair ?obs obstacles' k)" by simp
    then show ?thesis
      unfolding split_pair_def FloatPair_lessThan_def FloatPair.sel by linarith
  qed
  from select_split_full [OF sel ne] have f: "k = select_full ?obs obstacles'" .
  show "\<exists>k I1 l r. node = ObstacleTreeNode I1 l r
        \<and> k < length obstacles' \<and> obstacles' ! k = Some I1
        \<and> (\<forall>i < length obstacles'.
              max (L_count ?obs obstacles' k) (R_count ?obs obstacles' k)
                < max (L_count ?obs obstacles' i) (R_count ?obs obstacles' i)
              \<or> max (L_count ?obs obstacles' k) (R_count ?obs obstacles' k)
                  = max (L_count ?obs obstacles' i) (R_count ?obs obstacles' i)
                \<and> min (L_count ?obs obstacles' k) (R_count ?obs obstacles' k)
                  \<le> min (L_count ?obs obstacles' i) (R_count ?obs obstacles' i))
        \<and> (\<forall>i < k. FloatPair_lessThan (split_pair ?obs obstacles' k)
                       (split_pair ?obs obstacles' i))
        \<and> k = select_full ?obs obstacles'"
    using n m(1) k lex m(5) f by blast
qed

theorem splitter_minimises_witness:
  "buildObstacleTreeRecursive walls_sim (map Some [0 ..< 6]) = Some (walls_sim, walls_tree)
   \<and> map Some [0 ..< 6] \<noteq> ([] :: nat option list)
   \<and> obstacle_t walls_tree = 2
   \<and> select_full (obstacles walls_sim) (map Some [0 ..< 6]) = 2
   \<and> map (\<lambda>i. (L_count (obstacles walls_sim) (map Some [0 ..< 6]) i,
               R_count (obstacles walls_sim) (map Some [0 ..< 6]) i)) [0 ..< 6]
     = [(5, 0), (1, 4), (3, 2), (3, 2), (1, 4), (5, 0)]"
proof -
  have ne: "map Some [0 ..< 6] \<noteq> ([] :: nat option list)" by simp
  from splitter_minimises [of walls_sim "map Some [0 ..< 6]" walls_sim walls_tree]
    walls_build ne
  obtain k where "k < 6" "map Some [0 ..< 6] ! k = Some (2 :: nat)"
    "k = select_full (obstacles walls_sim) (map Some [0 ..< 6])"
    by (auto simp: walls_tree_def)
  then have "select_full (obstacles walls_sim) (map Some [0 ..< 6]) = 2"
    by (simp del: upt_Suc add: nth_map [of k "[0 ..< 6]" Some])
  with walls_build ne walls_counts show ?thesis
    by (simp add: walls_tree_def)
qed

end
